theory Spec2Isabelle
  imports Main "HOL-Library.List_Lexorder" "HOL-Library.AList" "HOL-Library.Code_Target_Nat"
begin

section \<open>Python strings\<close>

text \<open>
  A Python \<^verbatim>\<open>str\<close> is a sequence of Unicode code points, and \<^verbatim>\<open>len\<close>, indexing,
  slicing and comparison all work on code points.  A string is therefore a list of
  natural numbers, one per code point; \<open>str\<close> reads an ASCII literal.
  With \<open>HOL-Library.List_Lexorder\<close> the order on these lists is the
  lexicographic one on code points in which a proper prefix is smaller, which is how
  Python compares two strings.
\<close>

type_synonym pystr = "nat list"

definition str :: "string \<Rightarrow> pystr" where
  "str cs = map of_char cs"

text \<open>
  The characters \<^verbatim>\<open>str.isspace\<close>, \<^verbatim>\<open>str.strip()\<close>, \<^verbatim>\<open>str.split()\<close> and the
  pattern \<^verbatim>\<open>\s\<close> of \<^verbatim>\<open>re\<close> (on a \<^verbatim>\<open>str\<close> pattern) treat as whitespace:
  U+0009..U+000D, U+001C..U+0020, U+0085, U+00A0, U+1680, U+2000..U+200A,
  U+2028, U+2029, U+202F, U+205F, U+3000.
\<close>

definition isspace :: "nat \<Rightarrow> bool" where
  "isspace c \<longleftrightarrow>
     (9 \<le> c \<and> c \<le> 13) \<or> (28 \<le> c \<and> c \<le> 32) \<or> c = 133 \<or> c = 160 \<or> c = 5760 \<or>
     (8192 \<le> c \<and> c \<le> 8202) \<or> c = 8232 \<or> c = 8233 \<or> c = 8239 \<or> c = 8287 \<or> c = 12288"

text \<open>The classes \<^verbatim>\<open>[A-Z]\<close> and \<^verbatim>\<open>[a-z]\<close> of the patterns (no flag: ASCII only).\<close>

definition isAZ :: "nat \<Rightarrow> bool" where
  "isAZ c \<longleftrightarrow> 65 \<le> c \<and> c \<le> 90"

definition isaz :: "nat \<Rightarrow> bool" where
  "isaz c \<longleftrightarrow> 97 \<le> c \<and> c \<le> 122"

text \<open>
  \<^verbatim>\<open>\d\<close> on a \<^verbatim>\<open>str\<close> pattern: the decimal digits of every script (the characters
  of category Nd, those for which \<^verbatim>\<open>str.isdecimal()\<close> holds), by their ranges of code
  points in Unicode 14.0, the table of Python 3.11.
\<close>

definition digit_ranges :: "(nat \<times> nat) list" where
  "digit_ranges =
     [(48, 57), (1632, 1641), (1776, 1785), (1984, 1993), (2406, 2415), (2534,
      2543), (2662, 2671), (2790, 2799), (2918, 2927), (3046, 3055), (3174, 3183),
      (3302, 3311), (3430, 3439), (3558, 3567), (3664, 3673), (3792, 3801), (3872,
      3881), (4160, 4169), (4240, 4249), (6112, 6121), (6160, 6169), (6470, 6479),
      (6608, 6617), (6784, 6793), (6800, 6809), (6992, 7001), (7088, 7097), (7232,
      7241), (7248, 7257), (42528, 42537), (43216, 43225), (43264, 43273), (43472,
      43481), (43504, 43513), (43600, 43609), (44016, 44025), (65296, 65305),
      (66720, 66729), (68912, 68921), (69734, 69743), (69872, 69881), (69942,
      69951), (70096, 70105), (70384, 70393), (70736, 70745), (70864, 70873),
      (71248, 71257), (71360, 71369), (71472, 71481), (71904, 71913), (72016,
      72025), (72784, 72793), (73040, 73049), (73120, 73129), (92768, 92777),
      (92864, 92873), (93008, 93017), (120782, 120831), (123200, 123209), (123632,
      123641), (125264, 125273), (130032, 130041)]"

definition isdigit :: "nat \<Rightarrow> bool" where
  "isdigit c \<longleftrightarrow> list_ex (\<lambda>(lo, hi). lo \<le> c \<and> c \<le> hi) digit_ranges"

text \<open>
  \<^verbatim>\<open>str.lower()\<close>, \<^verbatim>\<open>str.isupper()\<close> and \<^verbatim>\<open>str.islower()\<close> on one character, for the
  ASCII letters.  The program lowers a genus (ASCII letters), a scientific name
  (ASCII letters, dots and whitespace) and a common name that it then compares with
  ASCII constants; no other code point lowers to an ASCII letter of those constants.
\<close>

definition lower_char :: "nat \<Rightarrow> nat" where
  "lower_char c = (if isAZ c then c + 32 else c)"

definition lower :: "pystr \<Rightarrow> pystr" where
  "lower s = map lower_char s"

definition isupper :: "nat \<Rightarrow> bool" where
  "isupper c = isAZ c"

definition islower :: "nat \<Rightarrow> bool" where
  "islower c = isaz c"

text \<open>\<^verbatim>\<open>s.startswith(p)\<close>.\<close>

definition startswith :: "pystr \<Rightarrow> pystr \<Rightarrow> bool" where
  "startswith s p \<longleftrightarrow> take (length p) s = p"

text \<open>
  \<^verbatim>\<open>s.find(sub, start)\<close>: the lowest index \<open>i \<ge> start\<close> at which \<open>sub\<close> occurs in
  \<open>s\<close>, or \<open>-1\<close>; a negative \<open>start\<close> counts from the end.  \<open>find_from sub s i\<close>
  searches the suffix \<open>s\<close> whose first character has index \<open>i\<close>.
\<close>

fun find_from :: "pystr \<Rightarrow> pystr \<Rightarrow> nat \<Rightarrow> nat option" where
  "find_from sub [] i = (if sub = [] then Some i else None)"
| "find_from sub (c # cs) i =
     (if startswith (c # cs) sub then Some i else find_from sub cs (Suc i))"

definition find :: "pystr \<Rightarrow> pystr \<Rightarrow> int \<Rightarrow> int" where
  "find s sub start =
     (let st = (if start < 0 then nat (int (length s) + start) else nat start)
      in if length s < st then - 1
         else case find_from sub (drop st s) st of None \<Rightarrow> - 1 | Some i \<Rightarrow> int i)"

text \<open>\<^verbatim>\<open>sub in s\<close>.\<close>

definition contains :: "pystr \<Rightarrow> pystr \<Rightarrow> bool" where
  "contains s sub \<longleftrightarrow> find_from sub s 0 \<noteq> None"

text \<open>
  \<^verbatim>\<open>s[a:b]\<close> for integers \<open>a\<close> and \<open>b\<close>: a negative index counts from the end, and
  both are clipped to the string.
\<close>

definition clip :: "nat \<Rightarrow> int \<Rightarrow> nat" where
  "clip n a = (if a < 0 then nat (int n + a) else min n (nat a))"

definition slice :: "'a list \<Rightarrow> int \<Rightarrow> int \<Rightarrow> 'a list" where
  "slice xs a b = take (clip (length xs) b - clip (length xs) a) (drop (clip (length xs) a) xs)"

text \<open>\<^verbatim>\<open>s.strip()\<close> and \<^verbatim>\<open>s.strip(chars)\<close>.\<close>

definition strip :: "pystr \<Rightarrow> pystr" where
  "strip s = rev (dropWhile isspace (rev (dropWhile isspace s)))"

definition strip_chars :: "pystr \<Rightarrow> pystr \<Rightarrow> pystr" where
  "strip_chars chars s =
     rev (dropWhile (\<lambda>c. c \<in> set chars) (rev (dropWhile (\<lambda>c. c \<in> set chars) s)))"

text \<open>
  \<^verbatim>\<open>s.split(sep)\<close> for a non-empty separator: the pieces between the occurrences of
  \<open>sep\<close>, found from left to right without overlap.  (Python raises \<^verbatim>\<open>ValueError\<close>
  on an empty separator; every call of the program passes a non-empty literal.)
\<close>

lemma startswith_length: "startswith s p \<Longrightarrow> length p \<le> length s"
proof -
  assume "startswith s p"
  then have "length (take (length p) s) = length p"
    by (simp only: startswith_def)
  then show ?thesis by simp
qed

lemma find_from_bound:
  "find_from sub s i = Some k \<Longrightarrow> sub \<noteq> [] \<Longrightarrow> k + length sub \<le> i + length s"
proof (induction s arbitrary: i)
  case Nil
  then show ?case by simp
next
  case (Cons c cs)
  show ?case
  proof (cases "startswith (c # cs) sub")
    case True
    then have "length sub \<le> length (c # cs)"
      by (rule startswith_length)
    with True Cons.prems show ?thesis by simp
  next
    case False
    with Cons.prems have "find_from sub cs (Suc i) = Some k" by simp
    from Cons.IH [OF this Cons.prems(2)] show ?thesis by simp
  qed
qed

function split_sep :: "pystr \<Rightarrow> pystr \<Rightarrow> pystr list" where
  "split_sep s sep =
     (case find_from sep s 0 of
        None \<Rightarrow> [s]
      | Some i \<Rightarrow> if sep = [] then [s] else take i s # split_sep (drop (i + length sep) s) sep)"
  by pat_completeness auto
termination
proof (relation "measure (\<lambda>(s, sep). length s)")
  show "wf (measure (\<lambda>(s, sep). length s))" by simp
next
  fix s sep :: pystr and i
  assume "find_from sep s 0 = Some i" "sep \<noteq> []"
  then have "i + length sep \<le> length s" and "0 < length sep"
    using find_from_bound [of sep s 0 i] by simp_all
  then have "length s - (i + length sep) < length s"
    by arith
  then show "((drop (i + length sep) s, sep), (s, sep)) \<in> measure (\<lambda>(s, sep). length s)"
    by simp
qed

declare split_sep.simps [simp del]

text \<open>\<^verbatim>\<open>s.replace(old, new)\<close> for a non-empty \<open>old\<close>.\<close>

function replace :: "pystr \<Rightarrow> pystr \<Rightarrow> pystr \<Rightarrow> pystr" where
  "replace [] old new = []"
| "replace (c # cs) old new =
     (if old \<noteq> [] \<and> startswith (c # cs) old
      then new @ replace (drop (length old) (c # cs)) old new
      else c # replace cs old new)"
  by pat_completeness auto
termination
proof (relation "measure (\<lambda>(s, old, new). length s)")
  show "wf (measure (\<lambda>(s, old, new). length s))" by simp
next
  fix c :: nat and cs old new :: pystr
  assume "old \<noteq> [] \<and> startswith (c # cs) old"
  then have "0 < length old" by simp
  then have "length (c # cs) - length old < length (c # cs)" by simp
  then show "((drop (length old) (c # cs), old, new), (c # cs, old, new))
      \<in> measure (\<lambda>(s, old, new). length s)"
    by simp
next
  fix c :: nat and cs old new :: pystr
  show "((cs, old, new), (c # cs, old, new)) \<in> measure (\<lambda>(s, old, new). length s)"
    by simp
qed

text \<open>\<^verbatim>\<open>s.split()\<close>: the maximal runs of non-whitespace characters.\<close>

fun split_ws_from :: "pystr \<Rightarrow> pystr \<Rightarrow> pystr list" where
  "split_ws_from cur [] = (if cur = [] then [] else [cur])"
| "split_ws_from cur (c # cs) =
     (if isspace c then (if cur = [] then split_ws_from [] cs else cur # split_ws_from [] cs)
      else split_ws_from (cur @ [c]) cs)"

definition split_ws :: "pystr \<Rightarrow> pystr list" where
  "split_ws s = split_ws_from [] s"

text \<open>\<^verbatim>\<open>sep.join(xs)\<close>.\<close>

fun join :: "pystr \<Rightarrow> pystr list \<Rightarrow> pystr" where
  "join sep [] = []"
| "join sep [x] = x"
| "join sep (x # y # ys) = x @ sep @ join sep (y # ys)"

text \<open>
  Indexing \<^verbatim>\<open>xs[i]\<close> raises \<^verbatim>\<open>IndexError\<close> out of range; a negative index counts from
  the end.
\<close>

datatype error = IndexError

definition index :: "'a list \<Rightarrow> int \<Rightarrow> error + 'a" where
  "index xs i =
     (if 0 \<le> i \<and> i < int (length xs) then Inr (xs ! nat i)
      else if i < 0 \<and> - int (length xs) \<le> i then Inr (xs ! nat (int (length xs) + i))
      else Inl IndexError)"


section \<open>The patterns of \<^verbatim>\<open>parse_plants\<close>\<close>

text \<open>
  Each pattern is matched by \<^verbatim>\<open>re.match\<close> or \<^verbatim>\<open>re.sub\<close>, whose engine is greedy and
  backtracks.  In these patterns every repetition (\<^verbatim>\<open>[a-z]+\<close>, \<^verbatim>\<open>\s+\<close>, \<^verbatim>\<open>\s*\<close>,
  \<^verbatim>\<open>\d+\<close>) is followed by something that cannot start with a character of the
  repeated class, so a repetition that gives characters back never leads to a
  match: it takes the longest run (\<open>takeWhile\<close>) and the rest goes on after it
  (\<open>dropWhile\<close>).  The choices that remain are written out.
\<close>

definition dagger :: nat where
  "dagger = 8224"

text \<open>
  \<^verbatim>\<open>.*$\<close>: \<^verbatim>\<open>.\<close> is any character but a newline, and \<^verbatim>\<open>$\<close> holds at the end of
  the string or before a newline that ends it.  \<open>line_rest r\<close> is what is left of
  \<open>r\<close> after the match (nothing, or that last newline), \<open>None\<close> when there is no match.
\<close>

definition line_rest :: "pystr \<Rightarrow> pystr option" where
  "line_rest r =
     (let a = dropWhile (\<lambda>c. c \<noteq> 10) r in if a = [] \<or> a = [10] then Some a else None)"

text \<open>\<^verbatim>\<open>([A-Z].*)$\<close>: the group, when it matches at the start of \<open>r\<close>.\<close>

definition common_group :: "pystr \<Rightarrow> pystr option" where
  "common_group r =
     (case r of
        [] \<Rightarrow> None
      | c # cs \<Rightarrow>
          if isAZ c then (case line_rest cs of
                            None \<Rightarrow> None
                          | Some a \<Rightarrow> Some (c # takeWhile (\<lambda>c. c \<noteq> 10) cs))
          else None)"

text \<open>
  \<^verbatim>\<open>\s*\<dagger>?\s+([A-Z].*)$\<close> (the obelisk is U+2020).  After the whitespace \<open>w\<close>: an
  obelisk is taken, and needs whitespace after it; otherwise \<^verbatim>\<open>\s*\<close> leaves the last
  character of \<open>w\<close> to \<^verbatim>\<open>\s+\<close>, so \<open>w\<close> is not empty.
\<close>

definition entry_tail :: "pystr \<Rightarrow> pystr option" where
  "entry_tail r =
     (let w = takeWhile isspace r; r1 = dropWhile isspace r
      in case r1 of
           [] \<Rightarrow> None
         | c # cs \<Rightarrow>
             if c = dagger
             then (if takeWhile isspace cs \<noteq> [] then common_group (dropWhile isspace cs)
                   else None)
             else if w \<noteq> [] then common_group r1
             else None)"

text \<open>
  \<^verbatim>\<open>(?:\s+(?:var\.|ssp\.)\s+[a-z]+)\<close>: the text matched at the start of \<open>r\<close>, and the
  rest.
\<close>

definition variant :: "pystr \<Rightarrow> (pystr \<times> pystr) option" where
  "variant r =
     (let w1 = takeWhile isspace r; r1 = dropWhile isspace r
      in if w1 \<noteq> [] \<and> (startswith r1 (str ''var.'') \<or> startswith r1 (str ''ssp.''))
         then (let r2 = drop 4 r1; w2 = takeWhile isspace r2; r3 = dropWhile isspace r2;
                   v = takeWhile isaz r3
               in if w2 \<noteq> [] \<and> v \<noteq> [] then Some (w1 @ take 4 r1 @ w2 @ v, dropWhile isaz r3)
                  else None)
         else None)"

text \<open>
  \<^verbatim>\<open>re.match(r'^([A-Z][a-z]+)\s+([a-z]+(?:\s+(?:var\.|ssp\.)\s+[a-z]+)?)\s*\<dagger>?\s+([A-Z].*)$', line)\<close>:
  the three groups.  The optional part is tried first, and left out when the rest
  does not match after it.
\<close>

definition entry_match :: "pystr \<Rightarrow> (pystr \<times> pystr \<times> pystr) option" where
  "entry_match line =
     (case line of
        [] \<Rightarrow> None
      | c # r \<Rightarrow>
          (let g = takeWhile isaz r; r1 = dropWhile isaz r;
               w = takeWhile isspace r1; r2 = dropWhile isspace r1;
               sp = takeWhile isaz r2; r3 = dropWhile isaz r2
           in if \<not> isAZ c \<or> g = [] \<or> w = [] \<or> sp = [] then None
              else (case (case variant r3 of
                            None \<Rightarrow> None
                          | Some (v, r4) \<Rightarrow>
                              (case entry_tail r4 of
                                 None \<Rightarrow> None
                               | Some common \<Rightarrow> Some (c # g, sp @ v, common))) of
                      Some m \<Rightarrow> Some m
                    | None \<Rightarrow>
                        (case entry_tail r3 of
                           None \<Rightarrow> None
                         | Some common \<Rightarrow> Some (c # g, sp, common)))))"

text \<open>\<^verbatim>\<open>re.match(r'^[A-Z][a-z]+\s+[a-z]+\s+[A-Z]', line)\<close>: does the line start an entry?\<close>

definition entry_shape :: "pystr \<Rightarrow> bool" where
  "entry_shape line =
     (case line of
        [] \<Rightarrow> False
      | c # r \<Rightarrow>
          (let g = takeWhile isaz r; r1 = dropWhile isaz r;
               w = takeWhile isspace r1; r2 = dropWhile isspace r1;
               sp = takeWhile isaz r2; r3 = dropWhile isaz r2;
               w2 = takeWhile isspace r3; r4 = dropWhile isspace r3
           in isAZ c \<and> g \<noteq> [] \<and> w \<noteq> [] \<and> sp \<noteq> [] \<and> w2 \<noteq> [] \<and>
              (case r4 of [] \<Rightarrow> False | d # _ \<Rightarrow> isAZ d)))"

text \<open>
  A letter of a pattern compiled with \<^verbatim>\<open>re.IGNORECASE\<close> matches both cases; on a
  \<^verbatim>\<open>str\<close> pattern \<^verbatim>\<open>i\<close> also matches U+0130 and U+0131, and \<^verbatim>\<open>s\<close> also U+017F.
\<close>

definition ci_char :: "nat \<Rightarrow> nat \<Rightarrow> bool" where
  "ci_char p c \<longleftrightarrow>
     lower_char c = lower_char p \<or> (lower_char p = 105 \<and> (c = 304 \<or> c = 305)) \<or>
     (lower_char p = 115 \<and> c = 383)"

definition ci_startswith :: "pystr \<Rightarrow> pystr \<Rightarrow> bool" where
  "ci_startswith s p \<longleftrightarrow> length p \<le> length s \<and> list_all2 ci_char p (take (length p) s)"

text \<open>
  \<^verbatim>\<open>re.sub(r'\s+(Prohibited|Regulated|Invasive).*$', '', common, flags=re.IGNORECASE)\<close>.
  \<open>status_match r\<close>: when the pattern matches at the start of \<open>r\<close>, what is left of \<open>r\<close>
  after the match.  The first match from the left runs to the end of the string (or to
  its last newline), where the pattern cannot match again.
\<close>

definition status_match :: "pystr \<Rightarrow> pystr option" where
  "status_match r =
     (let w = takeWhile isspace r; r1 = dropWhile isspace r
      in if w = [] then None
         else if ci_startswith r1 (str ''Prohibited'') then line_rest (drop 10 r1)
         else if ci_startswith r1 (str ''Regulated'') then line_rest (drop 9 r1)
         else if ci_startswith r1 (str ''Invasive'') then line_rest (drop 8 r1)
         else None)"

fun sub_status :: "pystr \<Rightarrow> pystr" where
  "sub_status [] = []"
| "sub_status (c # cs) =
     (case status_match (c # cs) of Some a \<Rightarrow> a | None \<Rightarrow> c # sub_status cs)"

text \<open>\<^verbatim>\<open>re.sub(r'\s*Coefficient\s+of\s+\d+.*$', '', habitat_text)\<close>, in the same way.\<close>

definition coefficient_match :: "pystr \<Rightarrow> pystr option" where
  "coefficient_match r =
     (let r1 = dropWhile isspace r
      in if startswith r1 (str ''Coefficient'')
         then (let r2 = drop 11 r1; w2 = takeWhile isspace r2; r3 = dropWhile isspace r2
               in if w2 \<noteq> [] \<and> startswith r3 (str ''of'')
                  then (let r4 = drop 2 r3; w3 = takeWhile isspace r4;
                            r5 = dropWhile isspace r4
                        in if w3 \<noteq> [] \<and> takeWhile isdigit r5 \<noteq> []
                           then line_rest (dropWhile isdigit r5)
                           else None)
                  else None)
         else None)"

fun sub_coefficient :: "pystr \<Rightarrow> pystr" where
  "sub_coefficient [] = []"
| "sub_coefficient (c # cs) =
     (case coefficient_match (c # cs) of Some a \<Rightarrow> a | None \<Rightarrow> c # sub_coefficient cs)"


section \<open>\<^verbatim>\<open>parse_plants\<close>\<close>

text \<open>
  The dictionary \<^verbatim>\<open>plant_info\<close> has the same nine keys in every record; \<^verbatim>\<open>main\<close>
  adds \<^verbatim>\<open>category\<close>, which is \<open>None\<close> until then.
\<close>

record plant =
  scientific_name :: pystr
  common_name :: pystr
  habitat :: pystr
  form_color :: pystr
  ecosystem_services :: pystr
  horticultural_value :: pystr
  other_info :: pystr
  exposure :: pystr
  soil_moisture :: pystr
  category :: "pystr option"

text \<open>The section between \<^verbatim>\<open>Page | 98\<close> (or the Ferns header) and \<^verbatim>\<open>Glossary\<close>.\<close>

definition description_section :: "pystr \<Rightarrow> pystr" where
  "description_section content =
     (let found = find content (str ''Page | 98'') 0;
          start_idx =
            (if found = - 1
             then (let ferns = find content (str ''Ferns'' @ [10] @ str ''Ferns add texture'') 0
                   in if ferns = - 1 then 0 else ferns)
             else found);
          glossary = find content (str ''Glossary'') start_idx;
          end_idx = (if glossary = - 1 then int (length content) else glossary)
      in slice content start_idx end_idx)"

text \<open>
  The inner loop on \<open>k\<close>: the lines that continue a \<^verbatim>\<open>Form/Color:\<close> text.  It returns
  \<^verbatim>\<open>form_text\<close> at the \<^verbatim>\<open>break\<close> or at the end of the window.
\<close>

function form_continuation :: "pystr list \<Rightarrow> nat \<Rightarrow> nat \<Rightarrow> pystr \<Rightarrow> pystr" where
  "form_continuation lines j k form_text =
     (if k < min (j + 4) (length lines)
      then (let cont = strip (lines ! k)
            in if cont \<noteq> [] \<and>
                  \<not> list_ex (startswith cont)
                      [str ''Other:'', str ''---'', str ''Habitat:'', str ''Page |'']
               then (if entry_shape cont then form_text
                     else form_continuation lines j (k + 1) (form_text @ str '' '' @ cont))
               else form_text)
      else form_text)"
  by pat_completeness auto
termination
proof (relation "measure (\<lambda>(lines, j, k, form_text). j + 4 - k)")
  show "wf (measure (\<lambda>(lines, j, k, form_text). j + 4 - k))" by simp
next
  fix lines :: "pystr list" and j k :: nat and form_text cont :: pystr
  assume "k < min (j + 4) (length lines)"
  then have "j + 4 - (k + 1) < j + 4 - k" by arith
  then show "((lines, j, k + 1, form_text @ str '' '' @ cont), (lines, j, k, form_text))
      \<in> measure (\<lambda>(lines, j, k, form_text). j + 4 - k)"
    by simp
qed

declare form_continuation.simps [simp del]

text \<open>The \<^verbatim>\<open>if\<close>/\<^verbatim>\<open>elif\<close> chain on line \<open>j\<close> of the lookahead.\<close>

definition harvest_line :: "pystr list \<Rightarrow> nat \<Rightarrow> plant \<Rightarrow> error + plant" where
  "harvest_line lines j plant_info =
     (let next_line = strip (lines ! j)
      in if startswith next_line (str ''Habitat:'')
         then Inr (plant_info\<lparr>habitat :=
                     sub_coefficient (strip (replace next_line (str ''Habitat:'') []))\<rparr>)
         else if contains next_line (str ''Exposure:'')
         then (let parts = split_sep next_line (str ''Exposure:'')
               in if 1 < length parts
                  then (case index parts 1 of
                          Inl e \<Rightarrow> Inl e
                        | Inr part \<Rightarrow>
                            (case index (split_sep part (str ''Ecosystem'')) 0 of
                               Inl e \<Rightarrow> Inl e
                             | Inr exp \<Rightarrow> Inr (plant_info\<lparr>exposure := strip exp\<rparr>)))
                  else Inr plant_info)
         else if contains next_line (str ''Form/Color:'')
         then (case index (split_sep next_line (str ''Form/Color:'')) (- 1) of
                 Inl e \<Rightarrow> Inl e
               | Inr form_text \<Rightarrow>
                   Inr (plant_info\<lparr>form_color :=
                          form_continuation lines j (j + 1) (strip form_text)\<rparr>))
         else if contains next_line (str ''Ecosystem Services:'')
         then (case index (split_sep next_line (str ''Services:'')) (- 1) of
                 Inl e \<Rightarrow> Inl e
               | Inr t \<Rightarrow> Inr (plant_info\<lparr>ecosystem_services := strip t\<rparr>))
         else if contains next_line (str ''Horticultural'') \<and> contains next_line (str ''Value:'')
         then (case index (split_sep next_line (str ''Value:'')) (- 1) of
                 Inl e \<Rightarrow> Inl e
               | Inr t \<Rightarrow> Inr (plant_info\<lparr>horticultural_value := strip t\<rparr>))
         else if startswith next_line (str ''Other:'')
         then Inr (plant_info\<lparr>other_info := strip (replace next_line (str ''Other:'') [])\<rparr>)
         else Inr plant_info)"

text \<open>
  The lookahead loop on \<open>j\<close>, from \<open>i + 1\<close> and below \<open>min(i + 60, len(lines))\<close>: line
  \<open>j\<close> is harvested, then the loop stops when \<open>j > i + 3\<close> and the line starts an
  entry.
\<close>

function lookahead :: "pystr list \<Rightarrow> nat \<Rightarrow> nat \<Rightarrow> plant \<Rightarrow> error + plant" where
  "lookahead lines i j plant_info =
     (if j < min (i + 60) (length lines)
      then (case harvest_line lines j plant_info of
              Inl e \<Rightarrow> Inl e
            | Inr plant_info' \<Rightarrow>
                if i + 3 < j \<and> entry_shape (strip (lines ! j)) then Inr plant_info'
                else lookahead lines i (j + 1) plant_info')
      else Inr plant_info)"
  by pat_completeness auto
termination
proof (relation "measure (\<lambda>(lines, i, j, plant_info). i + 60 - j)")
  show "wf (measure (\<lambda>(lines, i, j, plant_info). i + 60 - j))" by simp
next
  fix lines :: "pystr list" and i j :: nat and plant_info' :: plant
  assume "j < min (i + 60) (length lines)"
  then have "i + 60 - (j + 1) < i + 60 - j" by arith
  then show "((lines, i, j + 1, plant_info'), (lines, i, j, plant_info))
      \<in> measure (\<lambda>(lines, i, j, plant_info). i + 60 - j)" for plant_info
    by simp
qed

declare lookahead.simps [simp del]

text \<open>
  The body of the outer loop for line \<open>i\<close>: \<open>Inr None\<close> when the line gives no new
  record (skipped, not an entry, rejected, or its key already seen), and
  \<open>Inr (Some (key, plant_info))\<close> when it appends \<open>plant_info\<close> and adds \<open>key\<close> to
  \<^verbatim>\<open>seen\<close>.
\<close>

definition skip_terms :: "pystr list" where
  "skip_terms = map str [''ferns'', ''forbs'', ''graminoids'', ''shrubs'', ''trees'', ''vines'']"

definition header_names :: "pystr list" where
  "header_names = map str [''common name'', ''common names'', ''valued characteristics'']"

definition new_plant :: "pystr \<Rightarrow> pystr \<Rightarrow> plant" where
  "new_plant scientific common =
     \<lparr>scientific_name = scientific, common_name = common, habitat = [], form_color = [],
      ecosystem_services = [], horticultural_value = [], other_info = [], exposure = [],
      soil_moisture = [], category = None\<rparr>"

definition candidate :: "pystr list \<Rightarrow> nat \<Rightarrow> pystr set \<Rightarrow> error + (pystr \<times> plant) option" where
  "candidate lines i seen =
     (let line = strip (lines ! i)
      in if line = [] \<or> startswith line (str ''---'') \<or> startswith line (str ''Page |'')
         then Inr None
         else (case entry_match line of
                 None \<Rightarrow> Inr None
               | Some (g1, g2, g3) \<Rightarrow>
                   (let genus = strip g1;
                        species = strip (replace (strip g2) [dagger] []);
                        common0 = strip (replace (strip g3) [dagger] []);
                        scientific = genus @ str '' '' @ species;
                        common = join (str '' '') (split_ws (sub_status common0))
                    in if length common < 3 then Inr None
                       else if lower genus \<in> set skip_terms then Inr None
                       else (case index genus 0 of
                               Inl e \<Rightarrow> Inl e
                             | Inr g0 \<Rightarrow>
                                 if \<not> isupper g0 then Inr None
                                 else (case index species 0 of
                                         Inl e \<Rightarrow> Inl e
                                       | Inr s0 \<Rightarrow>
                                           if \<not> islower s0 then Inr None
                                           else if lower common \<in> set header_names then Inr None
                                           else (let key = lower scientific
                                                 in if key \<notin> seen
                                                    then (case lookahead lines i (i + 1)
                                                                 (new_plant scientific common) of
                                                            Inl e \<Rightarrow> Inl e
                                                          | Inr plant_info \<Rightarrow>
                                                              Inr (Some (key, plant_info)))
                                                    else Inr None))))))"

function parse_loop :: "pystr list \<Rightarrow> nat \<Rightarrow> pystr set \<Rightarrow> plant list \<Rightarrow> error + plant list" where
  "parse_loop lines i seen plants =
     (if i < length lines
      then (case candidate lines i seen of
              Inl e \<Rightarrow> Inl e
            | Inr None \<Rightarrow> parse_loop lines (i + 1) seen plants
            | Inr (Some (key, plant_info)) \<Rightarrow>
                parse_loop lines (i + 1) (insert key seen) (plants @ [plant_info]))
      else Inr plants)"
  by pat_completeness auto
termination
  by (relation "measure (\<lambda>(lines, i, seen, plants). length lines - i)") simp_all

declare parse_loop.simps [simp del]

text \<open>\<^verbatim>\<open>parse_plants\<close>, from the text \<^verbatim>\<open>content\<close> read from the file.\<close>

definition parse_plants :: "pystr \<Rightarrow> error + plant list" where
  "parse_plants content = parse_loop (split_sep (description_section content) [10]) 0 {} []"

section \<open>\<^verbatim>\<open>categorize_plant\<close>, \<^verbatim>\<open>clean_name\<close> and \<^verbatim>\<open>main\<close>\<close>

definition fern_genera :: "pystr list" where
  "fern_genera =
     map str
      [''Adiantum'', ''Asplenium'', ''Athyrium'', ''Dennstaedtia'', ''Deparia'',
       ''Dryopteris'', ''Matteuccia'', ''Onoclea'', ''Osmunda'', ''Osmundastrum'',
       ''Polypodium'', ''Polystichum'', ''Pteridium'', ''Thelypteris'', ''Woodwardia'']"

definition graminoid_genera :: "pystr list" where
  "graminoid_genera =
     map str
      [''Ammophila'', ''Andropogon'', ''Aristida'', ''Agrostis'', ''Avenella'',
       ''Bolboschoenus'', ''Calamagrostis'', ''Carex'', ''Cenchrus'', ''Chasmanthium'',
       ''Cinna'', ''Cyperus'', ''Danthonia'', ''Dichanthelium'', ''Distichlis'',
       ''Eleocharis'', ''Elymus'', ''Eragrostis'', ''Eriophorum'', ''Festuca'',
       ''Glyceria'', ''Juncus'', ''Koeleria'', ''Leersia'', ''Muhlenbergia'',
       ''Panicum'', ''Phalaris'', ''Piptochaetium'', ''Poa'', ''Rhynchospora'',
       ''Schizachyrium'', ''Schoenoplectus'', ''Scirpus'', ''Sorghastrum'',
       ''Spartina'', ''Sporobolus'', ''Tridens'', ''Tripsacum'', ''Typha'', ''Zizania'']"

definition shrub_genera :: "pystr list" where
  "shrub_genera =
     map str
      [''Aronia'', ''Arctostaphylos'', ''Baccharis'', ''Calycanthus'', ''Ceanothus'',
       ''Cephalanthus'', ''Clethra'', ''Comptonia'', ''Cornus'', ''Crataegus'',
       ''Diervilla'', ''Epigaea'', ''Eubotrys'', ''Euonymus'', ''Gaultheria'',
       ''Gaylussacia'', ''Hamamelis'', ''Hudsonia'', ''Hydrangea'', ''Ilex'', ''Itea'',
       ''Kalmia'', ''Leucothoe'', ''Lindera'', ''Lyonia'', ''Morella'', ''Myrica'',
       ''Photinia'', ''Physocarpus'', ''Prunus'', ''Rhododendron'', ''Rhus'', ''Ribes'',
       ''Rosa'', ''Rubus'', ''Sambucus'', ''Spiraea'', ''Staphylea'',
       ''Symphoricarpos'', ''Vaccinium'', ''Viburnum'', ''Xanthorhiza'']"

definition tree_genera :: "pystr list" where
  "tree_genera =
     map str
      [''Abies'', ''Acer'', ''Aesculus'', ''Amelanchier'', ''Asimina'', ''Betula'',
       ''Carpinus'', ''Carya'', ''Castanea'', ''Catalpa'', ''Celtis'', ''Cercis'',
       ''Chionanthus'', ''Cladrastis'', ''Diospyros'', ''Fagus'', ''Fraxinus'',
       ''Gleditsia'', ''Gymnocladus'', ''Halesia'', ''Juglans'', ''Juniperus'',
       ''Larix'', ''Liquidambar'', ''Liriodendron'', ''Magnolia'', ''Morus'', ''Nyssa'',
       ''Ostrya'', ''Oxydendrum'', ''Picea'', ''Pinus'', ''Platanus'', ''Populus'',
       ''Quercus'', ''Salix'', ''Sassafras'', ''Taxodium'', ''Thuja'', ''Tilia'',
       ''Tsuga'', ''Ulmus'']"

definition vine_genera :: "pystr list" where
  "vine_genera =
     map str
      [''Apios'', ''Bignonia'', ''Campsis'', ''Celastrus'', ''Clematis'', ''Lonicera'',
       ''Menispermum'', ''Parthenocissus'', ''Smilax'', ''Strophostyles'', ''Vitis'',
       ''Wisteria'']"

definition categorize_plant :: "pystr \<Rightarrow> error + pystr" where
  "categorize_plant name =
     (case index (split_ws name) 0 of
        Inl e \<Rightarrow> Inl e
      | Inr genus \<Rightarrow>
          Inr (if genus \<in> set fern_genera then str ''Fern''
               else if genus \<in> set graminoid_genera then str ''Graminoid''
               else if genus \<in> set shrub_genera then str ''Shrub''
               else if genus \<in> set tree_genera then str ''Tree''
               else if genus \<in> set vine_genera then str ''Vine''
               else str ''Forb''))"

definition clean_name :: "pystr \<Rightarrow> pystr" where
  "clean_name name = strip_chars (str '' .,;:'') (join (str '' '') (split_ws name))"

text \<open>The first loop of \<^verbatim>\<open>main\<close>: names cleaned, category added.\<close>

fun add_categories :: "plant list \<Rightarrow> error + plant list" where
  "add_categories [] = Inr []"
| "add_categories (plant # rest) =
     (let scientific = clean_name (scientific_name plant);
          common = clean_name (common_name plant)
      in case categorize_plant scientific of
           Inl e \<Rightarrow> Inl e
         | Inr cat \<Rightarrow>
             (case add_categories rest of
                Inl e \<Rightarrow> Inl e
              | Inr rest' \<Rightarrow>
                  Inr (plant\<lparr>scientific_name := scientific, common_name := common,
                             category := Some cat\<rparr> # rest')))"

text \<open>
  The second loop of \<^verbatim>\<open>main\<close>; \<open>merge_plant\<close> is its body.  The dictionary
  \<^verbatim>\<open>unique_plants\<close> keeps its keys in the order of their first insertion, and
  assigning to a key that is present keeps its place: an association list under
  \<open>AList.update\<close>.
\<close>

definition merge_plant :: "(pystr \<times> plant) list \<Rightarrow> plant \<Rightarrow> (pystr \<times> plant) list" where
  "merge_plant unique_plants plant =
     (let key = lower (scientific_name plant)
      in case map_of unique_plants key of
           None \<Rightarrow> AList.update key plant unique_plants
         | Some existing \<Rightarrow>
             if length (habitat existing) < length (habitat plant)
             then AList.update key plant unique_plants
             else unique_plants)"

fun remove_duplicates :: "(pystr \<times> plant) list \<Rightarrow> plant list \<Rightarrow> (pystr \<times> plant) list" where
  "remove_duplicates unique_plants [] = unique_plants"
| "remove_duplicates unique_plants (plant # rest) =
     remove_duplicates (merge_plant unique_plants plant) rest"

text \<open>
  \<^verbatim>\<open>main\<close>, from the text of the file to the list it writes: \<^verbatim>\<open>list.sort\<close> is stable,
  as \<open>sort_key\<close> is.
\<close>

definition main :: "pystr \<Rightarrow> error + plant list" where
  "main content =
     (case parse_plants content of
        Inl e \<Rightarrow> Inl e
      | Inr plants \<Rightarrow>
          (case add_categories plants of
             Inl e \<Rightarrow> Inl e
           | Inr plants' \<Rightarrow>
               Inr (sort_key scientific_name (map snd (remove_duplicates [] plants')))))"


section \<open>Example documents\<close>

text \<open>A document from its lines, joined by newlines.\<close>

definition document :: "string list \<Rightarrow> pystr" where
  "document ls = join [10] (map str ls)"

text \<open>The example of the specification: one entry with two labelled lines.\<close>

definition example_fern :: pystr where
  "example_fern =
     document [''Adiantum pedatum Northern maidenhair fern'', ''Habitat: Moist woods'',
       ''Exposure: Shade'']"

text \<open>Two entries out of alphabetical order, five lines apart.\<close>

definition example_two :: pystr where
  "example_two =
     document [''Rosa carolina Pasture rose'', ''Habitat: Dry fields'', '''', '''', '''',
       ''Acer rubrum Red maple'', ''Habitat: Swamps'']"


text \<open>
  The same entry twice, five lines apart: the first with a habitat of 12 characters,
  the second with one of 30; and the second entry alone.
\<close>

definition example_repeated :: pystr where
  "example_repeated =
     document [''Adiantum pedatum Northern fern'', ''Habitat: Moist forest'', '''', '''', '''',
       ''Adiantum pedatum Northern fern'', ''Habitat: Moist forests, shaded ravines.'']"

definition example_second_only :: pystr where
  "example_second_only =
     document [''Adiantum pedatum Northern fern'',
       ''Habitat: Moist forests, shaded ravines.'']"

text \<open>
  Two entries whose scientific names differ in the whitespace after \<^verbatim>\<open>var.\<close> only,
  with another entry between them: the parser keeps both, and \<^verbatim>\<open>clean_name\<close> makes
  their names equal.  The first has a habitat of 12 characters, the second one of 30.
\<close>

definition example_variant :: pystr where
  "example_variant =
     document [''Rosa alba var. minor Small rose'', ''Habitat: Moist forest'', '''', '''', '''',
       ''Acer rubrum Red maple'', ''Rosa alba var.  minor Small rose'',
       ''Habitat: Moist forests, shaded ravines.'']"

text \<open>A document with the page marker on its second line and a glossary after the entry.\<close>

definition example_guide :: pystr where
  "example_guide =
     document [''Contents'', ''Page | 98'', ''Adiantum pedatum Northern fern'', ''Glossary'',
       ''Frond: the leaf of a fern'']"

section \<open>The section of the plant descriptions, as the specification words it\<close>

text \<open>
  \<open>sub\<close> occurs in \<open>s\<close> at index \<open>i\<close>; \<open>i\<close> is the first index from \<open>start\<close> on at which
  it occurs.
\<close>

definition occurs_at :: "pystr \<Rightarrow> pystr \<Rightarrow> nat \<Rightarrow> bool" where
  "occurs_at sub s i \<longleftrightarrow> take (length sub) (drop i s) = sub"

definition first_occurrence :: "pystr \<Rightarrow> pystr \<Rightarrow> nat \<Rightarrow> nat \<Rightarrow> bool" where
  "first_occurrence sub s start i \<longleftrightarrow>
     start \<le> i \<and> occurs_at sub s i \<and> (\<forall>k\<in>{start..<i}. \<not> occurs_at sub s k)"

text \<open>
  The start boundary: the first occurrence of the page marker; without one, the first
  occurrence of the section header; without one, offset 0.
\<close>

definition section_start :: "pystr \<Rightarrow> nat \<Rightarrow> bool" where
  "section_start content start \<longleftrightarrow>
     (if \<exists>k. occurs_at (str ''Page | 98'') content k
      then first_occurrence (str ''Page | 98'') content 0 start
      else if \<exists>k. occurs_at (str ''Ferns'' @ [10] @ str ''Ferns add texture'') content k
      then first_occurrence (str ''Ferns'' @ [10] @ str ''Ferns add texture'') content 0 start
      else start = 0)"

text \<open>
  The end boundary: the first occurrence of \<^verbatim>\<open>Glossary\<close> at or after the start; without
  one, the end of the document.
\<close>

definition section_end :: "pystr \<Rightarrow> nat \<Rightarrow> nat \<Rightarrow> bool" where
  "section_end content start end_idx \<longleftrightarrow>
     (if \<exists>k\<ge>start. occurs_at (str ''Glossary'') content k
      then first_occurrence (str ''Glossary'') content start end_idx
      else end_idx = length content)"




section \<open>Records of the parser\<close>

text \<open>
  What holds of every record \<^verbatim>\<open>parse_plants\<close> appends: \<^verbatim>\<open>soil_moisture\<close> is empty, there
  is no \<^verbatim>\<open>category\<close> yet, and the scientific name starts with the capital of its genus.
\<close>

definition harvested :: "plant \<Rightarrow> bool" where
  "harvested p \<longleftrightarrow>
     soil_moisture p = [] \<and> category p = None \<and> (\<exists>c t. scientific_name p = c # t \<and> isAZ c)"


text \<open>
  What the first loop of \<^verbatim>\<open>main\<close> makes of a record \<open>p\<close>: the record \<open>q\<close> with both
  names cleaned and the category of the cleaned scientific name.
\<close>

definition categorized :: "plant \<Rightarrow> plant \<Rightarrow> bool" where
  "categorized p q \<longleftrightarrow>
     (\<exists>cat. categorize_plant (clean_name (scientific_name p)) = Inr cat \<and>
        q = p\<lparr>scientific_name := clean_name (scientific_name p),
              common_name := clean_name (common_name p), category := Some cat\<rparr>)"

text \<open>The key of the dictionary \<^verbatim>\<open>unique_plants\<close> for a record.\<close>

definition key_of :: "plant \<Rightarrow> pystr" where
  "key_of plant = lower (scientific_name plant)"

text \<open>
  Among the records \<open>ps\<close>, in their order, \<open>q\<close> is the first with key \<open>k\<close> whose
  habitat is as long as that of any record with key \<open>k\<close>: the records with this key
  before \<open>q\<close> have a shorter habitat, those after \<open>q\<close> one that is not longer.
\<close>

definition longest_habitat :: "pystr \<Rightarrow> plant list \<Rightarrow> plant \<Rightarrow> bool" where
  "longest_habitat k ps q \<longleftrightarrow>
     (\<exists>pre post. ps = pre @ q # post \<and> key_of q = k \<and>
        (\<forall>r\<in>set pre. key_of r = k \<longrightarrow> length (habitat r) < length (habitat q)) \<and>
        (\<forall>r\<in>set post. key_of r = k \<longrightarrow> length (habitat r) \<le> length (habitat q)))"

text \<open>
  The dictionary \<open>up\<close> holds, for the records \<open>ps\<close> merged so far, no entry under a key
  that no record has, and under any other key the record with the longest habitat.
\<close>

definition merged :: "(pystr \<times> plant) list \<Rightarrow> plant list \<Rightarrow> bool" where
  "merged up ps \<longleftrightarrow>
     (\<forall>k. case map_of up k of
            None \<Rightarrow> (\<forall>r\<in>set ps. key_of r \<noteq> k)
          | Some q \<Rightarrow> longest_habitat k ps q)"

text \<open>
  \<open>candidate lines i {}\<close> is the entry that line \<open>i\<close> starts when nothing has been seen: its
  key and its harvested record.  The record \<open>p\<close> is that of the first line of the
  section that starts an entry with the key of \<open>p\<close>.
\<close>

definition first_candidate :: "pystr list \<Rightarrow> plant \<Rightarrow> bool" where
  "first_candidate lines p \<longleftrightarrow>
     (\<exists>i<length lines. candidate lines i {} = Inr (Some (key_of p, p)) \<and>
        (\<forall>j<i. \<forall>q. candidate lines j {} \<noteq> Inr (Some (key_of p, q))))"

section \<open>The parser returns\<close>

lemma isAZ_not_space: "isAZ c \<Longrightarrow> \<not> isspace c"
  by (auto simp: isAZ_def isspace_def)

lemma isaz_not_space: "isaz c \<Longrightarrow> \<not> isspace c"
  by (auto simp: isaz_def isspace_def)

lemma strip_pred_Cons:
  assumes "\<not> P c"
  shows "\<exists>t. rev (dropWhile P (rev (dropWhile P (c # cs)))) = c # t"
proof -
  have "dropWhile P (rev cs @ [c]) = dropWhile P (rev cs) @ [c]"
    using assms by (induction "rev cs" arbitrary: cs) (auto simp: dropWhile_append)
  then show ?thesis using assms by simp
qed

lemma strip_Cons: "\<not> isspace c \<Longrightarrow> \<exists>t. strip (c # cs) = c # t"
  unfolding strip_def by (rule strip_pred_Cons)

lemma strip_chars_Cons: "c \<notin> set chars \<Longrightarrow> \<exists>t. strip_chars chars (c # cs) = c # t"
  unfolding strip_chars_def by (rule strip_pred_Cons)

lemma split_sep_nonempty: "split_sep s sep \<noteq> []"
  by (subst split_sep.simps) (simp split: option.split)

lemma index_0: "xs \<noteq> [] \<Longrightarrow> index xs 0 = Inr (hd xs)"
  by (cases xs) (simp_all add: index_def)

lemma index_1: "1 < length xs \<Longrightarrow> index xs 1 = Inr (xs ! 1)"
  by (simp add: index_def)

lemma index_last: "xs \<noteq> [] \<Longrightarrow> index xs (- 1) = Inr (last xs)"
  by (cases xs rule: rev_cases) (simp_all add: index_def Let_def nth_append)

lemma split_ws_from_cur:
  "cur \<noteq> [] \<Longrightarrow> \<exists>w rest. split_ws_from cur s = (cur @ w) # rest"
proof (induction s arbitrary: cur)
  case Nil
  then show ?case by simp
next
  case (Cons c cs)
  show ?case
  proof (cases "isspace c")
    case True
    with Cons.prems show ?thesis by simp
  next
    case False
    have "cur @ [c] \<noteq> []" by simp
    from Cons.IH [OF this] obtain w rest
      where "split_ws_from (cur @ [c]) cs = ((cur @ [c]) @ w) # rest"
      by blast
    with False have "split_ws_from cur (c # cs) = (cur @ (c # w)) # rest" by simp
    then show ?thesis by blast
  qed
qed

lemma split_ws_Cons: "\<not> isspace c \<Longrightarrow> \<exists>w rest. split_ws (c # cs) = (c # w) # rest"
  using split_ws_from_cur [of "[c]" cs] by (simp add: split_ws_def)

lemma join_Cons: "\<exists>t. join sep ((c # w) # rest) = c # t"
  by (cases rest) simp_all

lemma takeWhile_Cons: "takeWhile P xs \<noteq> [] \<Longrightarrow> \<exists>d t. takeWhile P xs = d # t \<and> P d"
  by (cases xs) (auto split: if_splits)

lemma entry_match_groups:
  assumes "entry_match line = Some (g1, g2, g3)"
  shows "(\<exists>c g. g1 = c # g \<and> isAZ c) \<and> (\<exists>d t. g2 = d # t \<and> isaz d)"
proof (cases line)
  case Nil
  with assms show ?thesis by (simp add: entry_match_def)
next
  case (Cons c r)
  define r2 where "r2 = dropWhile isspace (dropWhile isaz r)"
  from assms Cons have ok: "isAZ c" "takeWhile isaz r2 \<noteq> []"
    by (auto simp: entry_match_def Let_def r2_def split: if_splits)
  from takeWhile_Cons [OF ok(2)] obtain d t where sp: "takeWhile isaz r2 = d # t" "isaz d"
    by blast
  from assms Cons ok have "g1 = c # takeWhile isaz r"
    by (auto simp: entry_match_def Let_def r2_def split: if_splits option.splits)
  moreover from assms Cons ok have "\<exists>v. g2 = takeWhile isaz r2 @ v"
    by (auto simp: entry_match_def Let_def r2_def split: if_splits option.splits)
  ultimately show ?thesis using ok(1) sp by auto
qed

lemma replace_Cons: "c \<noteq> d \<Longrightarrow> \<exists>t. replace (c # cs) [d] [] = c # t"
  by (simp add: startswith_def)

lemma harvest_line_returns:
  "\<exists>p'. harvest_line lines j p = Inr p' \<and> scientific_name p' = scientific_name p \<and>
     common_name p' = common_name p \<and> soil_moisture p' = soil_moisture p \<and>
     category p' = category p"
  by (simp add: harvest_line_def Let_def index_0 index_1 index_last split_sep_nonempty)

lemma lookahead_done:
  "\<not> j < min (i + 60) (length lines) \<Longrightarrow> lookahead lines i j p = Inr p"
  by (subst lookahead.simps) (simp only: if_False)

lemma lookahead_step:
  "j < min (i + 60) (length lines) \<Longrightarrow> harvest_line lines j p = Inr p1 \<Longrightarrow>
   lookahead lines i j p =
     (if i + 3 < j \<and> entry_shape (strip (lines ! j)) then Inr p1
      else lookahead lines i (j + 1) p1)"
  by (subst lookahead.simps) (simp only: if_True sum.case)

lemma lookahead_returns:
  "\<exists>p'. lookahead lines i j p = Inr p' \<and> scientific_name p' = scientific_name p \<and>
     common_name p' = common_name p \<and> soil_moisture p' = soil_moisture p \<and>
     category p' = category p"
proof (induction lines i j p rule: lookahead.induct)
  case (1 lines i j p)
  show ?case
  proof (cases "j < min (i + 60) (length lines)")
    case False
    then show ?thesis by (simp add: lookahead_done)
  next
    case True
    from harvest_line_returns [of lines j p] obtain p1
      where p1: "harvest_line lines j p = Inr p1" "scientific_name p1 = scientific_name p"
        "common_name p1 = common_name p" "soil_moisture p1 = soil_moisture p"
        "category p1 = category p"
      by blast
    note step = lookahead_step [OF True p1(1)]
    show ?thesis
    proof (cases "i + 3 < j \<and> entry_shape (strip (lines ! j))")
      case stop: True
      with p1 step show ?thesis by simp
    next
      case go: False
      from "1.IH" [OF True p1(1) go] obtain p2
        where "lookahead lines i (j + 1) p1 = Inr p2" "scientific_name p2 = scientific_name p1"
          "common_name p2 = common_name p1" "soil_moisture p2 = soil_moisture p1"
          "category p2 = category p1"
        by blast
      with p1 go step show ?thesis by simp
    qed
  qed
qed

lemma candidate_returns:
  "candidate lines i seen = Inr None \<or>
   (\<exists>key p. candidate lines i seen = Inr (Some (key, p)) \<and> key \<notin> seen \<and>
      key = lower (scientific_name p) \<and> soil_moisture p = [] \<and> category p = None \<and>
      (\<exists>c t. scientific_name p = c # t \<and> isAZ c))"
proof (cases "entry_match (strip (lines ! i))")
  case None
  then show ?thesis by (simp add: candidate_def Let_def)
next
  case (Some m)
  obtain g1 g2 g3 where m: "m = (g1, g2, g3)" by (cases m)
  from entry_match_groups [OF Some [unfolded m]] obtain c g d t
    where g1: "g1 = c # g" "isAZ c" and g2: "g2 = d # t" "isaz d"
    by blast
  from strip_Cons [OF isAZ_not_space [OF g1(2)]] g1(1) obtain tg
    where genus: "strip g1 = c # tg"
    by blast
  from strip_Cons [OF isaz_not_space [OF g2(2)]] g2(1) obtain t1
    where t1: "strip g2 = d # t1"
    by blast
  have "d \<noteq> dagger" using g2(2) by (auto simp: isaz_def dagger_def)
  from replace_Cons [OF this] obtain t2 where t2: "replace (d # t1) [dagger] [] = d # t2"
    by blast
  from strip_Cons [OF isaz_not_space [OF g2(2)]] obtain t3 where t3: "strip (d # t2) = d # t3"
    by blast
  from t1 t2 t3 have species: "strip (replace (strip g2) [dagger] []) = d # t3" by simp
  define common
    where "common = join (str '' '') (split_ws (sub_status (strip (replace (strip g3) [dagger] []))))"
  define sci where "sci = c # tg @ str '' '' @ d # t3"
  from lookahead_returns [of lines i "i + 1" "new_plant sci common"] obtain p
    where p: "lookahead lines i (i + 1) (new_plant sci common) = Inr p"
      "scientific_name p = sci" "soil_moisture p = []" "category p = None"
    by (auto simp: new_plant_def)
  have cases: "isupper c" "islower d" "index (c # tg) 0 = Inr c" "index (d # t3) 0 = Inr d"
    using g1(2) g2(2) by (simp_all add: isupper_def islower_def index_def)
  have "candidate lines i seen = Inr None \<or>
    (candidate lines i seen = Inr (Some (lower sci, p)) \<and> lower sci \<notin> seen)"
    using Some m genus species cases p(1)
    by (simp add: candidate_def Let_def common_def [symmetric] sci_def [symmetric])
  moreover have "\<exists>c t. sci = c # t \<and> isAZ c"
    using g1(2) by (simp add: sci_def)
  ultimately show ?thesis using p by auto
qed

lemma parse_loop_done: "\<not> i < length lines \<Longrightarrow> parse_loop lines i seen plants = Inr plants"
  by (subst parse_loop.simps) (simp only: if_False)

lemma parse_loop_skip:
  "i < length lines \<Longrightarrow> candidate lines i seen = Inr None \<Longrightarrow>
   parse_loop lines i seen plants = parse_loop lines (i + 1) seen plants"
  by (subst parse_loop.simps) (simp only: if_True sum.case option.case)

lemma parse_loop_append:
  "i < length lines \<Longrightarrow> candidate lines i seen = Inr (Some (key, p)) \<Longrightarrow>
   parse_loop lines i seen plants = parse_loop lines (i + 1) (insert key seen) (plants @ [p])"
  by (subst parse_loop.simps) (simp only: if_True sum.case option.case prod.case)

lemma parse_loop_returns:
  "\<forall>p\<in>set plants. harvested p \<Longrightarrow>
   seen = (\<lambda>p. lower (scientific_name p)) ` set plants \<Longrightarrow>
   distinct (map (\<lambda>p. lower (scientific_name p)) plants) \<Longrightarrow>
   \<exists>out. parse_loop lines i seen plants = Inr out \<and> (\<forall>p\<in>set out. harvested p) \<and>
     distinct (map (\<lambda>p. lower (scientific_name p)) out)"
proof (induction lines i seen plants rule: parse_loop.induct)
  case (1 lines i seen plants)
  show ?case
  proof (cases "i < length lines")
    case False
    with "1.prems" show ?thesis by (simp add: parse_loop_done)
  next
    case True
    from candidate_returns [of lines i seen] consider
      (skip) "candidate lines i seen = Inr None"
      | (new) key p where "candidate lines i seen = Inr (Some (key, p))" "key \<notin> seen"
        "key = lower (scientific_name p)" "harvested p"
      by (auto simp: harvested_def)
    then show ?thesis
    proof cases
      case skip
      from "1.IH"(1) [OF True skip refl "1.prems"] show ?thesis
        by (simp add: parse_loop_skip [OF True skip])
    next
      case new
      have a: "\<forall>q\<in>set (plants @ [p]). harvested q"
        using "1.prems"(1) new(4) by simp
      have b: "insert key seen = (\<lambda>p. lower (scientific_name p)) ` set (plants @ [p])"
        using "1.prems"(2) new(3) by simp
      have c: "distinct (map (\<lambda>p. lower (scientific_name p)) (plants @ [p]))"
        using "1.prems"(2,3) new(2,3) by simp
      from "1.IH"(2) [OF True new(1) refl refl a b c] show ?thesis
        by (simp add: parse_loop_append [OF True new(1)])
    qed
  qed
qed

lemma parse_plants_returns:
  "\<exists>plants. parse_plants content = Inr plants \<and> (\<forall>p\<in>set plants. harvested p) \<and>
     distinct (map (\<lambda>p. lower (scientific_name p)) plants)"
  unfolding parse_plants_def by (rule parse_loop_returns) simp_all

section \<open>\<^verbatim>\<open>main\<close> returns\<close>

lemma clean_name_Cons: "isAZ c \<Longrightarrow> \<exists>t. clean_name (c # cs) = c # t"
proof -
  assume c: "isAZ c"
  from split_ws_Cons [OF isAZ_not_space [OF c]] obtain w rest
    where "split_ws (c # cs) = (c # w) # rest"
    by blast
  moreover from join_Cons obtain t1 where "join (str '' '') ((c # w) # rest) = c # t1"
    by blast
  moreover have "c \<notin> set (str '' .,;:'')"
    using c by (auto simp: isAZ_def str_def)
  from strip_chars_Cons [OF this] obtain t where "strip_chars (str '' .,;:'') (c # t1) = c # t"
    by blast
  ultimately show ?thesis by (simp add: clean_name_def)
qed

lemma categorize_plant_Cons: "isAZ c \<Longrightarrow> \<exists>cat. categorize_plant (c # cs) = Inr cat"
proof -
  assume "isAZ c"
  from split_ws_Cons [OF isAZ_not_space [OF this]] obtain w rest
    where "split_ws (c # cs) = (c # w) # rest"
    by blast
  then show ?thesis by (simp add: categorize_plant_def index_def)
qed

lemma harvested_categorized: "harvested p \<Longrightarrow> \<exists>q. categorized p q"
proof -
  assume "harvested p"
  then obtain c t where "scientific_name p = c # t" "isAZ c"
    by (auto simp: harvested_def)
  moreover from clean_name_Cons [OF this(2)] obtain t' where "clean_name (c # t) = c # t'"
    by blast
  moreover from categorize_plant_Cons [OF \<open>isAZ c\<close>] obtain cat
    where "categorize_plant (c # t') = Inr cat"
    by blast
  ultimately show ?thesis by (simp add: categorized_def)
qed

lemma add_categories_returns:
  "\<forall>p\<in>set plants. harvested p \<Longrightarrow>
   \<exists>out. add_categories plants = Inr out \<and> list_all2 categorized plants out"
proof (induction plants)
  case Nil
  then show ?case by simp
next
  case (Cons p plants)
  from Cons.prems have "harvested p" by simp
  from harvested_categorized [OF this] obtain q where q: "categorized p q"
    by blast
  from Cons obtain out where out: "add_categories plants = Inr out" "list_all2 categorized plants out"
    by auto
  from q out have "add_categories (p # plants) = Inr (q # out)"
    by (auto simp: categorized_def Let_def)
  with q out(2) show ?case by simp
qed

lemma main_returns:
  "\<exists>plants cleaned. parse_plants content = Inr plants \<and> (\<forall>p\<in>set plants. harvested p) \<and>
     distinct (map (\<lambda>p. lower (scientific_name p)) plants) \<and>
     add_categories plants = Inr cleaned \<and> list_all2 categorized plants cleaned \<and>
     main content =
       Inr (sort_key scientific_name (map snd (remove_duplicates [] cleaned)))"
proof -
  from parse_plants_returns [of content] obtain plants
    where p: "parse_plants content = Inr plants" "\<forall>p\<in>set plants. harvested p"
      "distinct (map (\<lambda>p. lower (scientific_name p)) plants)"
    by blast
  from add_categories_returns [OF p(2)] obtain cleaned
    where c: "add_categories plants = Inr cleaned" "list_all2 categorized plants cleaned"
    by blast
  from p c have "main content =
       Inr (sort_key scientific_name (map snd (remove_duplicates [] cleaned)))"
    by (simp add: main_def)
  with p c show ?thesis by blast
qed

section \<open>The merge keeps one record for a key\<close>

lemma set_update_subset: "set (AList.update k v al) \<subseteq> insert (k, v) (set al)"
  by (induction al) auto

lemma merge_plant_keys:
  assumes "distinct (map fst up)" and "\<forall>(k, v)\<in>set up. k = key_of v"
  shows "distinct (map fst (merge_plant up p)) \<and> (\<forall>(k, v)\<in>set (merge_plant up p). k = key_of v)"
proof -
  have "distinct (map fst (AList.update (key_of p) p up))"
    using assms(1) by (rule distinct_update)
  moreover have "\<forall>(k, v)\<in>set (AList.update (key_of p) p up). k = key_of v"
    using assms(2) set_update_subset [of "key_of p" p up] by auto
  ultimately show ?thesis
    using assms by (simp add: merge_plant_def Let_def key_of_def split: option.split)
qed

lemma remove_duplicates_keys:
  "distinct (map fst up) \<Longrightarrow> \<forall>(k, v)\<in>set up. k = key_of v \<Longrightarrow>
   distinct (map fst (remove_duplicates up ps)) \<and>
   (\<forall>(k, v)\<in>set (remove_duplicates up ps). k = key_of v)"
proof (induction ps arbitrary: up)
  case Nil
  then show ?case by simp
next
  case (Cons p ps)
  from merge_plant_keys [OF Cons.prems] Cons.IH [of "merge_plant up p"] show ?case by simp
qed

lemma keys_of_values:
  "\<forall>(k, v)\<in>set al. k = key_of v \<Longrightarrow> map key_of (map snd al) = map fst al"
  by (induction al) auto

lemma distinct_keys_sort:
  "distinct (map key_of (sort_key f xs)) = distinct (map key_of xs)"
  by (simp add: distinct_map)

lemma output_keys_distinct:
  "distinct (map key_of (sort_key scientific_name (map snd (remove_duplicates [] ps))))"
proof -
  from remove_duplicates_keys [of "[]" ps]
  have "distinct (map fst (remove_duplicates [] ps))"
    and "\<forall>(k, v)\<in>set (remove_duplicates [] ps). k = key_of v"
    by simp_all
  then have "distinct (map key_of (map snd (remove_duplicates [] ps)))"
    by (simp only: keys_of_values)
  then show ?thesis by (simp only: distinct_keys_sort)
qed

lemma longest_habitat_le:
  "longest_habitat k ps q \<Longrightarrow> r \<in> set ps \<Longrightarrow> key_of r = k \<Longrightarrow>
   length (habitat r) \<le> length (habitat q)"
  by (fastforce simp: longest_habitat_def)

lemma longest_habitat_snoc_other:
  assumes "longest_habitat k ps q" and "key_of p \<noteq> k"
  shows "longest_habitat k (ps @ [p]) q"
proof -
  from assms(1) obtain pre post where h: "ps = pre @ q # post" "key_of q = k"
      "\<forall>r\<in>set pre. key_of r = k \<longrightarrow> length (habitat r) < length (habitat q)"
      "\<forall>r\<in>set post. key_of r = k \<longrightarrow> length (habitat r) \<le> length (habitat q)"
    unfolding longest_habitat_def by blast
  have "ps @ [p] = pre @ q # (post @ [p])" using h(1) by simp
  moreover have "\<forall>r\<in>set (post @ [p]). key_of r = k \<longrightarrow> length (habitat r) \<le> length (habitat q)"
    using h(4) assms(2) by auto
  ultimately show ?thesis unfolding longest_habitat_def using h(2,3) by blast
qed

lemma longest_habitat_snoc_le:
  assumes "longest_habitat k ps q" and "length (habitat p) \<le> length (habitat q)"
  shows "longest_habitat k (ps @ [p]) q"
proof -
  from assms(1) obtain pre post where h: "ps = pre @ q # post" "key_of q = k"
      "\<forall>r\<in>set pre. key_of r = k \<longrightarrow> length (habitat r) < length (habitat q)"
      "\<forall>r\<in>set post. key_of r = k \<longrightarrow> length (habitat r) \<le> length (habitat q)"
    unfolding longest_habitat_def by blast
  have "ps @ [p] = pre @ q # (post @ [p])" using h(1) by simp
  moreover have "\<forall>r\<in>set (post @ [p]). key_of r = k \<longrightarrow> length (habitat r) \<le> length (habitat q)"
    using h(4) assms(2) by auto
  ultimately show ?thesis unfolding longest_habitat_def using h(2,3) by blast
qed

lemma longest_habitat_snoc_new:
  assumes "\<forall>r\<in>set ps. key_of r = k \<longrightarrow> length (habitat r) < length (habitat p)"
    and "key_of p = k"
  shows "longest_habitat k (ps @ [p]) p"
proof -
  have "ps @ [p] = ps @ p # []" by simp
  moreover have "\<forall>r\<in>set []. key_of r = k \<longrightarrow> length (habitat r) \<le> length (habitat p)"
    by simp
  ultimately show ?thesis unfolding longest_habitat_def using assms by blast
qed

lemma merge_plant_merged:
  assumes "merged up ps"
  shows "merged (merge_plant up p) (ps @ [p])"
  unfolding merged_def
proof
  fix k
  from assms have inv: "case map_of up k of
      None \<Rightarrow> (\<forall>r\<in>set ps. key_of r \<noteq> k) | Some q \<Rightarrow> longest_habitat k ps q"
    unfolding merged_def by blast
  show "case map_of (merge_plant up p) k of
      None \<Rightarrow> (\<forall>r\<in>set (ps @ [p]). key_of r \<noteq> k)
    | Some q \<Rightarrow> longest_habitat k (ps @ [p]) q"
  proof (cases "k = key_of p")
    case False
    then have "map_of (merge_plant up p) k = map_of up k"
      by (simp add: merge_plant_def Let_def key_of_def update_conv' split: option.split)
    with inv False show ?thesis
      by (auto split: option.splits intro: longest_habitat_snoc_other)
  next
    case True
    show ?thesis
    proof (cases "map_of up k")
      case None
      with True have "map_of (merge_plant up p) k = Some p"
        by (simp add: merge_plant_def Let_def key_of_def update_conv')
      moreover from inv None True have "longest_habitat k (ps @ [p]) p"
        by (intro longest_habitat_snoc_new) auto
      ultimately show ?thesis by simp
    next
      case (Some e)
      with inv have e: "longest_habitat k ps e" by simp
      show ?thesis
      proof (cases "length (habitat e) < length (habitat p)")
        case longer: True
        with Some True have "map_of (merge_plant up p) k = Some p"
          by (simp add: merge_plant_def Let_def key_of_def update_conv')
        moreover have "\<forall>r\<in>set ps. key_of r = k \<longrightarrow> length (habitat r) < length (habitat p)"
          using longest_habitat_le [OF e] longer by fastforce
        then have "longest_habitat k (ps @ [p]) p"
          using True by (intro longest_habitat_snoc_new) auto
        ultimately show ?thesis by simp
      next
        case False
        with Some True have "map_of (merge_plant up p) k = Some e"
          by (simp add: merge_plant_def Let_def key_of_def)
        moreover from False have "longest_habitat k (ps @ [p]) e"
          by (intro longest_habitat_snoc_le [OF e]) simp
        ultimately show ?thesis by simp
      qed
    qed
  qed
qed

lemma remove_duplicates_merged:
  "merged up seen \<Longrightarrow> merged (remove_duplicates up ps) (seen @ ps)"
proof (induction ps arbitrary: up seen)
  case Nil
  then show ?case by simp
next
  case (Cons p ps)
  from Cons.IH [OF merge_plant_merged [OF Cons.prems, of p]] show ?case by simp
qed

lemma alist_key: "\<forall>(k, v)\<in>set al. k = key_of v \<Longrightarrow> (k, q) \<in> set al \<Longrightarrow> k = key_of q"
proof -
  assume "\<forall>(k, v)\<in>set al. k = key_of v" and "(k, q) \<in> set al"
  then have "case (k, q) of (k, v) \<Rightarrow> k = key_of v" by (rule bspec)
  then show ?thesis by simp
qed

lemma alist_value: "(k, q) \<in> set al \<Longrightarrow> q \<in> snd ` set al"
proof -
  assume "(k, q) \<in> set al"
  then have "snd (k, q) \<in> snd ` set al" by (rule imageI)
  then show ?thesis by simp
qed

lemma output_longest_habitat:
  fixes ps :: "plant list"
  defines "out \<equiv> sort_key scientific_name (map snd (remove_duplicates [] ps))"
  shows "(\<forall>q\<in>set out. longest_habitat (key_of q) ps q) \<and>
    (\<forall>p\<in>set ps. \<exists>q\<in>set out. key_of q = key_of p)"
proof -
  let ?al = "remove_duplicates [] ps"
  have "merged [] []" by (simp add: merged_def)
  from remove_duplicates_merged [OF this, of ps] have "merged ?al ps" by simp
  then have m: "case map_of ?al k of
      None \<Rightarrow> (\<forall>r\<in>set ps. key_of r \<noteq> k) | Some q \<Rightarrow> longest_habitat k ps q" for k
    unfolding merged_def by (rule spec)
  from remove_duplicates_keys [of "[]" ps]
  have d: "distinct (map fst ?al)" and kv: "\<forall>(k, v)\<in>set ?al. k = key_of v"
    by simp_all
  have out: "set out = snd ` set ?al" by (simp add: out_def)
  have a: "longest_habitat (key_of q) ps q" if "q \<in> set out" for q
  proof -
    from that out have "q \<in> snd ` set ?al" by simp
    then obtain k where k: "(k, q) \<in> set ?al" by (auto simp: image_iff)
    with kv have "k = key_of q" by (rule alist_key)
    moreover from d k have "map_of ?al k = Some q" by simp
    ultimately show ?thesis using m [of k] by simp
  qed
  have b: "\<exists>q\<in>set out. key_of q = key_of p" if "p \<in> set ps" for p
  proof (cases "map_of ?al (key_of p)")
    case None
    with m [of "key_of p"] have "\<forall>r\<in>set ps. key_of r \<noteq> key_of p" by simp
    with that show ?thesis by blast
  next
    case (Some q)
    then have k: "(key_of p, q) \<in> set ?al" by (rule map_of_SomeD)
    with kv have "key_of p = key_of q" by (rule alist_key)
    moreover from k have "q \<in> snd ` set ?al" by (rule alist_value)
    ultimately show ?thesis using out by auto
  qed
  from a b show ?thesis by blast
qed

lemma output_subset:
  "q \<in> set (sort_key scientific_name (map snd (remove_duplicates [] ps))) \<Longrightarrow> q \<in> set ps"
proof -
  assume "q \<in> set (sort_key scientific_name (map snd (remove_duplicates [] ps)))"
  with output_longest_habitat [of ps] have "longest_habitat (key_of q) ps q" by blast
  then obtain pre post where "ps = pre @ q # post"
    unfolding longest_habitat_def by blast
  then show ?thesis by simp
qed

lemma list_all2_right: "list_all2 P xs ys \<Longrightarrow> y \<in> set ys \<Longrightarrow> \<exists>x\<in>set xs. P x y"
  by (induction rule: list_all2_induct) auto

lemma categorize_plant_genus:
  "split_ws name = genus # rest \<Longrightarrow>
   categorize_plant name =
     Inr (if genus \<in> set fern_genera then str ''Fern''
          else if genus \<in> set graminoid_genera then str ''Graminoid''
          else if genus \<in> set shrub_genera then str ''Shrub''
          else if genus \<in> set tree_genera then str ''Tree''
          else if genus \<in> set vine_genera then str ''Vine''
          else str ''Forb'')"
  by (simp add: categorize_plant_def index_def)

lemma categorize_plant_Inr:
  "categorize_plant name = Inr cat \<Longrightarrow> \<exists>genus rest. split_ws name = genus # rest"
  by (cases "split_ws name") (simp_all add: categorize_plant_def index_def)

lemma output_records:
  "\<exists>plants cleaned out. parse_plants content = Inr plants \<and>
     add_categories plants = Inr cleaned \<and> main content = Inr out \<and>
     out = sort_key scientific_name (map snd (remove_duplicates [] cleaned)) \<and>
     (\<forall>q\<in>set out. q \<in> set cleaned) \<and>
     (\<forall>q\<in>set cleaned. \<exists>p\<in>set plants. harvested p \<and> categorized p q)"
proof -
  from main_returns [of content] obtain plants cleaned
    where m: "parse_plants content = Inr plants" "\<forall>p\<in>set plants. harvested p"
      "add_categories plants = Inr cleaned" "list_all2 categorized plants cleaned"
      "main content = Inr (sort_key scientific_name (map snd (remove_duplicates [] cleaned)))"
    by blast
  have "\<exists>p\<in>set plants. harvested p \<and> categorized p q" if "q \<in> set cleaned" for q
    using list_all2_right [OF m(4) that] m(2) by blast
  moreover have "\<forall>q\<in>set (sort_key scientific_name (map snd (remove_duplicates [] cleaned))).
      q \<in> set cleaned"
    using output_subset by blast
  ultimately show ?thesis using m(1,3,5) by blast
qed

section \<open>The parser keeps the first candidate\<close>

lemma lookahead_not_Inl: "lookahead lines i j p \<noteq> Inl e"
  using lookahead_returns [of lines i j p] by auto

lemma candidate_seen:
  "candidate lines i seen =
     (case candidate lines i {} of
        Inr (Some (key, p)) \<Rightarrow> if key \<in> seen then Inr None else Inr (Some (key, p))
      | r \<Rightarrow> r)"
  by (simp add: candidate_def Let_def lookahead_not_Inl
      split: option.split sum.split prod.split)

lemma candidate_new:
  assumes "candidate lines i seen = Inr (Some (k, p))"
  shows "candidate lines i {} = Inr (Some (k, p)) \<and> k \<notin> seen \<and> k = key_of p"
proof -
  from assms have "candidate lines i {} = Inr (Some (k, p)) \<and> k \<notin> seen"
    by (subst (asm) candidate_seen) (auto split: sum.splits option.splits if_splits)
  moreover from candidate_returns [of lines i seen] assms have "k = key_of p"
    by (auto simp: key_of_def)
  ultimately show ?thesis by simp
qed

lemma candidate_old:
  assumes "candidate lines i seen = Inr None" and "candidate lines i {} = Inr (Some (k, q))"
  shows "k \<in> seen"
  using assms by (subst (asm) candidate_seen) (auto split: if_splits)

lemma parse_loop_first:
  "parse_loop lines i seen plants = Inr out \<Longrightarrow>
   \<forall>p\<in>set plants. first_candidate lines p \<Longrightarrow>
   \<forall>j<i. \<forall>k q. candidate lines j {} = Inr (Some (k, q)) \<longrightarrow> k \<in> seen \<Longrightarrow>
   seen = key_of ` set plants \<Longrightarrow>
   (\<forall>p\<in>set out. first_candidate lines p) \<and>
   (\<forall>j<length lines. \<forall>k q. candidate lines j {} = Inr (Some (k, q)) \<longrightarrow>
      k \<in> key_of ` set out)"
proof (induction lines i seen plants rule: parse_loop.induct)
  case (1 lines i seen plants)
  show ?case
  proof (cases "i < length lines")
    case False
    with "1.prems"(1) have "out = plants" by (simp add: parse_loop_done)
    moreover have "\<forall>j<length lines. \<forall>k q. candidate lines j {} = Inr (Some (k, q)) \<longrightarrow>
        k \<in> key_of ` set plants"
    proof (intro allI impI)
      fix j k q
      assume "j < length lines" and c: "candidate lines j {} = Inr (Some (k, q))"
      with False have "j < i" by arith
      with "1.prems"(3) c have "k \<in> seen" by blast
      with "1.prems"(4) show "k \<in> key_of ` set plants" by simp
    qed
    ultimately show ?thesis using "1.prems"(2) by simp
  next
    case True
    from candidate_returns [of lines i seen] consider
      (skip) "candidate lines i seen = Inr None"
      | (new) k p where "candidate lines i seen = Inr (Some (k, p))"
      by blast
    then show ?thesis
    proof cases
      case skip
      have b: "\<forall>j<i + 1. \<forall>k q. candidate lines j {} = Inr (Some (k, q)) \<longrightarrow> k \<in> seen"
      proof (intro allI impI)
        fix j k q
        assume "j < i + 1" and c: "candidate lines j {} = Inr (Some (k, q))"
        then have "j < i \<or> j = i" by arith
        then show "k \<in> seen"
        proof
          assume "j < i"
          with "1.prems"(3) c show ?thesis by blast
        next
          assume "j = i"
          with c candidate_old [OF skip] show ?thesis by simp
        qed
      qed
      from "1.prems"(1) have "parse_loop lines (i + 1) seen plants = Inr out"
        by (simp add: parse_loop_skip [OF True skip])
      from "1.IH"(1) [OF True skip refl this "1.prems"(2) b "1.prems"(4)] show ?thesis .
    next
      case new
      from candidate_new [OF new] have n: "candidate lines i {} = Inr (Some (k, p))"
        "k \<notin> seen" "k = key_of p"
        by blast+
      have "\<forall>j<i. \<forall>q. candidate lines j {} \<noteq> Inr (Some (key_of p, q))"
        using "1.prems"(3) n(2,3) by blast
      with True n(1,3) have "first_candidate lines p"
        unfolding first_candidate_def by blast
      with "1.prems"(2) have a: "\<forall>q\<in>set (plants @ [p]). first_candidate lines q" by simp
      have b: "\<forall>j<i + 1. \<forall>k' q. candidate lines j {} = Inr (Some (k', q)) \<longrightarrow>
          k' \<in> insert k seen"
      proof (intro allI impI)
        fix j k' q
        assume "j < i + 1" and c: "candidate lines j {} = Inr (Some (k', q))"
        then have "j < i \<or> j = i" by arith
        then show "k' \<in> insert k seen"
        proof
          assume "j < i"
          with "1.prems"(3) c show ?thesis by blast
        next
          assume "j = i"
          with c n(1) show ?thesis by simp
        qed
      qed
      have c: "insert k seen = key_of ` set (plants @ [p])"
        using "1.prems"(4) n(3) by simp
      from "1.prems"(1) have "parse_loop lines (i + 1) (insert k seen) (plants @ [p]) = Inr out"
        by (simp add: parse_loop_append [OF True new])
      from "1.IH"(2) [OF True new refl refl this a b c] show ?thesis .
    qed
  qed
qed

lemma parse_plants_first:
  assumes "parse_plants content = Inr plants"
  shows "(\<forall>p\<in>set plants. first_candidate (split_sep (description_section content) [10]) p) \<and>
    (\<forall>j<length (split_sep (description_section content) [10]). \<forall>k q.
       candidate (split_sep (description_section content) [10]) j {} = Inr (Some (k, q)) \<longrightarrow>
       k \<in> key_of ` set plants)"
  using assms unfolding parse_plants_def by (rule parse_loop_first) simp_all

section \<open>Properties of the extractor\<close>

lemma main_example_two:
  "main example_two =
     Inr [(new_plant (str ''Acer rubrum'') (str ''Red maple''))
            \<lparr>habitat := str ''Swamps'', category := Some (str ''Tree'')\<rparr>,
          (new_plant (str ''Rosa carolina'') (str ''Pasture rose''))
            \<lparr>habitat := str ''Dry fields'', category := Some (str ''Shrub'')\<rparr>]"
  by code_simp

text \<open>
  C3.  For every document, \<^verbatim>\<open>main\<close> returns a list in which no two records have
  scientific names that are equal after lowercasing.
\<close>

theorem output_names_unique:
  "\<exists>out. main content = Inr out \<and> distinct (map (\<lambda>p. lower (scientific_name p)) out)"
proof -
  from main_returns [of content] obtain cleaned
    where "main content = Inr (sort_key scientific_name (map snd (remove_duplicates [] cleaned)))"
    by blast
  moreover have "distinct (map (\<lambda>p. lower (scientific_name p))
      (sort_key scientific_name (map snd (remove_duplicates [] cleaned))))"
    using output_keys_distinct [of cleaned] by (simp add: key_of_def [abs_def])
  ultimately show ?thesis by blast
qed

text \<open>
  C4.  For every document, the list \<^verbatim>\<open>main\<close> returns is sorted in non-decreasing
  order of the stored scientific names, compared as Python compares strings: code
  point by code point, upper case before lower case, a proper prefix first.
\<close>

theorem output_sorted:
  "\<exists>out. main content = Inr out \<and> sorted (map scientific_name out)"
proof -
  from main_returns [of content] obtain cleaned
    where "main content = Inr (sort_key scientific_name (map snd (remove_duplicates [] cleaned)))"
    by blast
  moreover have "sorted (map scientific_name
      (sort_key scientific_name (map snd (remove_duplicates [] cleaned))))"
    by (rule sorted_sort_key)
  ultimately show ?thesis by blast
qed

text \<open>
  C6.  For every document (empty, malformed or without section markers), the parser,
  the categorizer and the merge return: no index is out of range, and \<^verbatim>\<open>main\<close> ends
  with a list of records.
\<close>

theorem main_never_raises:
  "\<exists>plants cleaned out. parse_plants content = Inr plants \<and>
     add_categories plants = Inr cleaned \<and> main content = Inr out"
  using main_returns [of content] by blast

text \<open>
  C10.  Every record \<^verbatim>\<open>main\<close> returns has a \<^verbatim>\<open>soil_moisture\<close> field, and it is the
  empty string: the parser sets it empty and nothing assigns it afterwards.
\<close>

theorem soil_moisture_empty:
  "\<exists>out. main content = Inr out \<and> (\<forall>p\<in>set out. soil_moisture p = [])"
proof -
  from output_records [of content] obtain plants cleaned out
    where m: "main content = Inr out" "\<forall>q\<in>set out. q \<in> set cleaned"
      "\<forall>q\<in>set cleaned. \<exists>p\<in>set plants. harvested p \<and> categorized p q"
    by blast
  have "soil_moisture q = []" if "q \<in> set out" for q
  proof -
    from that m(2,3) obtain p where "harvested p" "categorized p q" by blast
    then show ?thesis by (auto simp: harvested_def categorized_def)
  qed
  with m(1) show ?thesis by blast
qed

theorem soil_moisture_empty_witness:
  "\<exists>a r. main example_two = Inr [a, r] \<and> scientific_name a = str ''Acer rubrum'' \<and>
     soil_moisture a = [] \<and> scientific_name r = str ''Rosa carolina'' \<and> soil_moisture r = []"
proof -
  from soil_moisture_empty [of example_two] obtain out
    where out: "main example_two = Inr out" "\<forall>p\<in>set out. soil_moisture p = []"
    by blast
  define a where "a = (new_plant (str ''Acer rubrum'') (str ''Red maple''))
            \<lparr>habitat := str ''Swamps'', category := Some (str ''Tree'')\<rparr>"
  define r where "r = (new_plant (str ''Rosa carolina'') (str ''Pasture rose''))
            \<lparr>habitat := str ''Dry fields'', category := Some (str ''Shrub'')\<rparr>"
  have "main example_two = Inr [a, r]"
    unfolding a_def r_def by (rule main_example_two)
  with out(1) have o: "out = [a, r]" by simp
  have names: "scientific_name a = str ''Acer rubrum''" "scientific_name r = str ''Rosa carolina''"
    by (simp_all add: a_def r_def new_plant_def)
  from out(2) o have "soil_moisture a = []" "soil_moisture r = []" by simp_all
  with out(1) o names show ?thesis by blast
qed

text \<open>
  C7.  The category of every record \<^verbatim>\<open>main\<close> returns is determined by the genus, the first
  whitespace-delimited token of its scientific name: it is one of the six labels, it
  is \<^verbatim>\<open>Forb\<close> when the genus is in none of the five lists, and \<^verbatim>\<open>categorize_plant\<close> gives
  the same category to every name with that first token.
\<close>

theorem category_from_genus:
  "\<exists>out. main content = Inr out \<and>
     (\<forall>r\<in>set out. \<exists>genus rest cat.
        split_ws (scientific_name r) = genus # rest \<and> category r = Some cat \<and>
        cat \<in> set (map str [''Fern'', ''Graminoid'', ''Shrub'', ''Tree'', ''Vine'', ''Forb'']) \<and>
        (genus \<notin> set fern_genera \<union> set graminoid_genera \<union> set shrub_genera \<union>
            set tree_genera \<union> set vine_genera \<longrightarrow> cat = str ''Forb'') \<and>
        (\<forall>name rest'. split_ws name = genus # rest' \<longrightarrow> categorize_plant name = Inr cat))"
proof -
  from output_records [of content] obtain plants cleaned out
    where m: "main content = Inr out" "\<forall>q\<in>set out. q \<in> set cleaned"
      "\<forall>q\<in>set cleaned. \<exists>p\<in>set plants. harvested p \<and> categorized p q"
    by blast
  have "\<exists>genus rest cat.
        split_ws (scientific_name r) = genus # rest \<and> category r = Some cat \<and>
        cat \<in> set (map str [''Fern'', ''Graminoid'', ''Shrub'', ''Tree'', ''Vine'', ''Forb'']) \<and>
        (genus \<notin> set fern_genera \<union> set graminoid_genera \<union> set shrub_genera \<union>
            set tree_genera \<union> set vine_genera \<longrightarrow> cat = str ''Forb'') \<and>
        (\<forall>name rest'. split_ws name = genus # rest' \<longrightarrow> categorize_plant name = Inr cat)"
    if "r \<in> set out" for r
  proof -
    from that m(2,3) obtain p where "categorized p r" by blast
    then obtain cat where cat: "categorize_plant (scientific_name r) = Inr cat"
        "category r = Some cat"
      by (auto simp: categorized_def)
    from categorize_plant_Inr [OF cat(1)] obtain genus rest
      where g: "split_ws (scientific_name r) = genus # rest"
      by blast
    note eq = categorize_plant_genus [OF g]
    from eq cat(1) have "cat \<in> set (map str [''Fern'', ''Graminoid'', ''Shrub'', ''Tree'', ''Vine'', ''Forb''])"
      by (simp split: if_splits)
    moreover from eq cat(1) have "genus \<notin> set fern_genera \<union> set graminoid_genera \<union>
        set shrub_genera \<union> set tree_genera \<union> set vine_genera \<longrightarrow> cat = str ''Forb''"
      by (simp split: if_splits)
    moreover have "categorize_plant name = Inr cat" if "split_ws name = genus # rest'" for name rest'
      using categorize_plant_genus [OF that] eq cat(1) by simp
    ultimately show ?thesis using g cat(2) by blast
  qed
  with m(1) show ?thesis by blast
qed

theorem category_from_genus_witness:
  "\<exists>a r. main example_two = Inr [a, r] \<and> category a = Some (str ''Tree'') \<and>
     category r = Some (str ''Shrub'') \<and>
     categorize_plant (str ''Rosa virginiana'') = Inr (str ''Shrub'')"
proof -
  from category_from_genus [of example_two] obtain out
    where out: "main example_two = Inr out"
      "\<forall>r\<in>set out. \<exists>genus rest cat.
        split_ws (scientific_name r) = genus # rest \<and> category r = Some cat \<and>
        cat \<in> set (map str [''Fern'', ''Graminoid'', ''Shrub'', ''Tree'', ''Vine'', ''Forb'']) \<and>
        (genus \<notin> set fern_genera \<union> set graminoid_genera \<union> set shrub_genera \<union>
            set tree_genera \<union> set vine_genera \<longrightarrow> cat = str ''Forb'') \<and>
        (\<forall>name rest'. split_ws name = genus # rest' \<longrightarrow> categorize_plant name = Inr cat)"
    by blast
  define a where "a = (new_plant (str ''Acer rubrum'') (str ''Red maple''))
            \<lparr>habitat := str ''Swamps'', category := Some (str ''Tree'')\<rparr>"
  define r where "r = (new_plant (str ''Rosa carolina'') (str ''Pasture rose''))
            \<lparr>habitat := str ''Dry fields'', category := Some (str ''Shrub'')\<rparr>"
  have m: "main example_two = Inr [a, r]"
    unfolding a_def r_def by (rule main_example_two)
  with out(1) have o: "out = [a, r]" by simp
  then have "r \<in> set out" by simp
  with out(2) obtain genus rest cat
    where g: "split_ws (scientific_name r) = genus # rest" "category r = Some cat"
      "\<forall>name rest'. split_ws name = genus # rest' \<longrightarrow> categorize_plant name = Inr cat"
    by blast
  have sr: "split_ws (scientific_name r) = [str ''Rosa'', str ''carolina'']"
    unfolding r_def new_plant_def by code_simp
  have sv: "split_ws (str ''Rosa virginiana'') = [str ''Rosa'', str ''virginiana'']"
    by code_simp
  from g(1) sr have "genus = str ''Rosa''" by simp
  with g(3) sv have "categorize_plant (str ''Rosa virginiana'') = Inr cat" by blast
  moreover have cats: "category a = Some (str ''Tree'')" "category r = Some (str ''Shrub'')"
    by (simp_all add: a_def r_def)
  moreover from g(2) cats(2) have "cat = str ''Shrub''" by simp
  ultimately show ?thesis using m by blast
qed

lemma main_example_variant:
  "parse_plants example_variant =
     Inr [(new_plant (str ''Rosa alba var. minor'') (str ''Small rose''))
            \<lparr>habitat := str ''Moist forest''\<rparr>,
          (new_plant (str ''Acer rubrum'') (str ''Red maple''))
            \<lparr>habitat := str ''Moist forests, shaded ravines.''\<rparr>,
          (new_plant (str ''Rosa alba var.  minor'') (str ''Small rose''))
            \<lparr>habitat := str ''Moist forests, shaded ravines.''\<rparr>]"
  "add_categories
     [(new_plant (str ''Rosa alba var. minor'') (str ''Small rose''))
        \<lparr>habitat := str ''Moist forest''\<rparr>,
      (new_plant (str ''Acer rubrum'') (str ''Red maple''))
        \<lparr>habitat := str ''Moist forests, shaded ravines.''\<rparr>,
      (new_plant (str ''Rosa alba var.  minor'') (str ''Small rose''))
        \<lparr>habitat := str ''Moist forests, shaded ravines.''\<rparr>] =
     Inr [(new_plant (str ''Rosa alba var. minor'') (str ''Small rose''))
            \<lparr>habitat := str ''Moist forest'', category := Some (str ''Shrub'')\<rparr>,
          (new_plant (str ''Acer rubrum'') (str ''Red maple''))
            \<lparr>habitat := str ''Moist forests, shaded ravines.'', category := Some (str ''Tree'')\<rparr>,
          (new_plant (str ''Rosa alba var. minor'') (str ''Small rose''))
            \<lparr>habitat := str ''Moist forests, shaded ravines.'',
             category := Some (str ''Shrub'')\<rparr>]"
  "main example_variant =
     Inr [(new_plant (str ''Acer rubrum'') (str ''Red maple''))
            \<lparr>habitat := str ''Moist forests, shaded ravines.'', category := Some (str ''Tree'')\<rparr>,
          (new_plant (str ''Rosa alba var. minor'') (str ''Small rose''))
            \<lparr>habitat := str ''Moist forests, shaded ravines.'',
             category := Some (str ''Shrub'')\<rparr>]"
  by code_simp+

lemma parse_example_repeated:
  "parse_plants example_repeated =
     Inr [(new_plant (str ''Adiantum pedatum'') (str ''Northern fern''))
            \<lparr>habitat := str ''Moist forest''\<rparr>]"
  "candidate (split_sep (description_section example_repeated) [10]) 5 {} =
     Inr (Some (str ''adiantum pedatum'',
       (new_plant (str ''Adiantum pedatum'') (str ''Northern fern''))
         \<lparr>habitat := str ''Moist forests, shaded ravines.''\<rparr>))"
  by code_simp+

text \<open>
  C1 does not hold as stated.  When the same entry comes twice, the first with a habitat
  of 12 characters and the second with one of 30, \<^verbatim>\<open>main\<close> returns the record with the
  12 characters: the parser drops the second entry, whose key is in \<^verbatim>\<open>seen\<close>, before
  the merge.  Alone, the second entry gives the habitat of 30 characters.
\<close>

theorem longer_habitat_counterexample:
  "main example_repeated =
     Inr [(new_plant (str ''Adiantum pedatum'') (str ''Northern fern''))
            \<lparr>habitat := str ''Moist forest'', category := Some (str ''Fern'')\<rparr>] \<and>
   main example_second_only =
     Inr [(new_plant (str ''Adiantum pedatum'') (str ''Northern fern''))
            \<lparr>habitat := str ''Moist forests, shaded ravines.'',
             category := Some (str ''Fern'')\<rparr>] \<and>
   length (str ''Moist forest'') = 12 \<and> length (str ''Moist forests, shaded ravines.'') = 30"
  by code_simp

text \<open>
  C1, amended.  The parser keeps the first candidate seen for a lowercased scientific
  name: every record it returns is the entry of the first line of the section that
  starts an entry with the record's key, every line that starts an entry has its key
  among the records, and no two records have the same key.  Among the records the
  parser returns, with their names cleaned, \<^verbatim>\<open>main\<close> keeps for every key (the lowercased
  cleaned name) one record: the first, in the parser's order, of those whose habitat
  is longest.  Every key of a cleaned record has its record in the output.
\<close>

theorem merge_keeps_longest_habitat:
  "\<exists>plants cleaned out. parse_plants content = Inr plants \<and>
     (\<forall>p\<in>set plants. first_candidate (split_sep (description_section content) [10]) p) \<and>
     (\<forall>j<length (split_sep (description_section content) [10]). \<forall>k q.
        candidate (split_sep (description_section content) [10]) j {} = Inr (Some (k, q)) \<longrightarrow>
        k \<in> key_of ` set plants) \<and>
     distinct (map (\<lambda>p. lower (scientific_name p)) plants) \<and>
     add_categories plants = Inr cleaned \<and> main content = Inr out \<and>
     (\<forall>q\<in>set out. longest_habitat (key_of q) cleaned q) \<and>
     (\<forall>p\<in>set cleaned. \<exists>q\<in>set out. key_of q = key_of p)"
proof -
  from main_returns [of content] obtain plants cleaned
    where m: "parse_plants content = Inr plants"
      "distinct (map (\<lambda>p. lower (scientific_name p)) plants)"
      "add_categories plants = Inr cleaned"
      "main content = Inr (sort_key scientific_name (map snd (remove_duplicates [] cleaned)))"
    by blast
  from parse_plants_first [OF m(1)] m output_longest_habitat [of cleaned] show ?thesis
    by blast
qed

theorem merge_keeps_longest_habitat_witness:
  "\<exists>first acer second kept later.
     main example_variant = Inr [acer, second] \<and>
     longest_habitat (key_of second) [first, acer, second] second \<and>
     key_of first = key_of second \<and> length (habitat first) = 12 \<and>
     length (habitat second) = 30 \<and>
     parse_plants example_repeated = Inr [kept] \<and>
     first_candidate (split_sep (description_section example_repeated) [10]) kept \<and>
     length (habitat kept) = 12 \<and>
     candidate (split_sep (description_section example_repeated) [10]) 5 {} =
       Inr (Some (key_of kept, later)) \<and>
     length (habitat later) = 30"
proof -
  define p1 where "p1 = (new_plant (str ''Rosa alba var. minor'') (str ''Small rose''))
            \<lparr>habitat := str ''Moist forest''\<rparr>"
  define p2 where "p2 = (new_plant (str ''Acer rubrum'') (str ''Red maple''))
            \<lparr>habitat := str ''Moist forests, shaded ravines.''\<rparr>"
  define p3 where "p3 = (new_plant (str ''Rosa alba var.  minor'') (str ''Small rose''))
            \<lparr>habitat := str ''Moist forests, shaded ravines.''\<rparr>"
  define c1 where "c1 = (new_plant (str ''Rosa alba var. minor'') (str ''Small rose''))
            \<lparr>habitat := str ''Moist forest'', category := Some (str ''Shrub'')\<rparr>"
  define c2 where "c2 = (new_plant (str ''Acer rubrum'') (str ''Red maple''))
            \<lparr>habitat := str ''Moist forests, shaded ravines.'', category := Some (str ''Tree'')\<rparr>"
  define c3 where "c3 = (new_plant (str ''Rosa alba var. minor'') (str ''Small rose''))
            \<lparr>habitat := str ''Moist forests, shaded ravines.'',
             category := Some (str ''Shrub'')\<rparr>"
  define kept where "kept = (new_plant (str ''Adiantum pedatum'') (str ''Northern fern''))
            \<lparr>habitat := str ''Moist forest''\<rparr>"
  define later where "later = (new_plant (str ''Adiantum pedatum'') (str ''Northern fern''))
            \<lparr>habitat := str ''Moist forests, shaded ravines.''\<rparr>"
  have e1: "parse_plants example_variant = Inr [p1, p2, p3]"
    unfolding p1_def p2_def p3_def by (rule main_example_variant(1))
  have e2: "add_categories [p1, p2, p3] = Inr [c1, c2, c3]"
    unfolding p1_def p2_def p3_def c1_def c2_def c3_def by (rule main_example_variant(2))
  have e3: "main example_variant = Inr [c2, c3]"
    unfolding c2_def c3_def by (rule main_example_variant(3))
  from merge_keeps_longest_habitat [of example_variant] obtain plants cleaned out
    where m: "parse_plants example_variant = Inr plants" "add_categories plants = Inr cleaned"
      "main example_variant = Inr out" "\<forall>q\<in>set out. longest_habitat (key_of q) cleaned q"
    by blast
  from m(1) e1 have "plants = [p1, p2, p3]" by simp
  with m(2) e2 have "cleaned = [c1, c2, c3]" by simp
  moreover from m(3) e3 have "out = [c2, c3]" by simp
  ultimately have v1: "longest_habitat (key_of c3) [c1, c2, c3] c3" using m(4) by simp
  have v2: "key_of c1 = key_of c3"
    by (simp add: c1_def c3_def key_of_def new_plant_def)
  have v3: "length (habitat c1) = 12" "length (habitat c3) = 30"
    by (simp_all add: c1_def c3_def new_plant_def str_def)
  have r1: "parse_plants example_repeated = Inr [kept]"
    unfolding kept_def by (rule parse_example_repeated(1))
  have k: "key_of kept = str ''adiantum pedatum''"
    unfolding kept_def key_of_def new_plant_def by code_simp
  have r2: "candidate (split_sep (description_section example_repeated) [10]) 5 {} =
      Inr (Some (key_of kept, later))"
    unfolding k later_def by (rule parse_example_repeated(2))
  from merge_keeps_longest_habitat [of example_repeated] obtain plants'
    where r: "parse_plants example_repeated = Inr plants'"
      "\<forall>p\<in>set plants'. first_candidate (split_sep (description_section example_repeated) [10]) p"
    by blast
  from r(1) r1 have "plants' = [kept]" by simp
  with r(2) have r3: "first_candidate (split_sep (description_section example_repeated) [10]) kept"
    by simp
  have r4: "length (habitat kept) = 12" "length (habitat later) = 30"
    by (simp_all add: kept_def later_def new_plant_def str_def)
  from e3 v1 v2 v3 r1 r2 r3 r4 show ?thesis by blast
qed



section \<open>The section locator\<close>

lemma find_from_Some:
  "find_from sub s off = Some k \<Longrightarrow>
   off \<le> k \<and> startswith (drop (k - off) s) sub \<and> (\<forall>j<k - off. \<not> startswith (drop j s) sub)"
proof (induction s arbitrary: off)
  case Nil
  then show ?case by (simp add: startswith_def split: if_splits)
next
  case (Cons c cs)
  show ?case
  proof (cases "startswith (c # cs) sub")
    case True
    with Cons.prems show ?thesis by simp
  next
    case False
    with Cons.prems have "find_from sub cs (Suc off) = Some k" by simp
    from Cons.IH [OF this] have ih: "Suc off \<le> k" "startswith (drop (k - Suc off) cs) sub"
      "\<forall>j<k - Suc off. \<not> startswith (drop j cs) sub"
      by simp_all
    from ih(1) have d: "k - off = Suc (k - Suc off)" by arith
    have "\<not> startswith (drop j (c # cs)) sub" if "j < k - off" for j
    proof (cases j)
      case 0
      with False show ?thesis by simp
    next
      case (Suc j')
      with that d have "j' < k - Suc off" by arith
      with ih(3) Suc show ?thesis by simp
    qed
    with ih(1,2) d show ?thesis by simp
  qed
qed

lemma find_from_None: "find_from sub s off = None \<Longrightarrow> \<not> startswith (drop j s) sub"
proof (induction s arbitrary: off j)
  case Nil
  then show ?case by (auto simp: startswith_def split: if_splits)
next
  case (Cons c cs)
  from Cons.prems have a: "\<not> startswith (c # cs) sub" "find_from sub cs (Suc off) = None"
    by (simp_all split: if_splits)
  show ?case
  proof (cases j)
    case 0
    with a(1) show ?thesis by simp
  next
    case (Suc j')
    with Cons.IH [OF a(2), of j'] show ?thesis by simp
  qed
qed

lemma occurs_at_bound:
  assumes "sub \<noteq> []" and "occurs_at sub s k"
  shows "k + length sub \<le> length s"
proof -
  from assms(2) have "length (take (length sub) (drop k s)) = length sub"
    by (simp only: occurs_at_def)
  then have "min (length sub) (length s - k) = length sub" by simp
  moreover from assms(1) have "0 < length sub" by simp
  ultimately show ?thesis by arith
qed

lemma occurs_at_drop: "occurs_at sub s k \<longleftrightarrow> startswith (drop k s) sub"
  by (simp add: occurs_at_def startswith_def)

lemma find_cases:
  assumes "0 \<le> start" and "nat start \<le> length s"
  shows "(find s sub start = - 1 \<and> (\<forall>k\<ge>nat start. \<not> occurs_at sub s k)) \<or>
    (\<exists>k. find s sub start = int k \<and> first_occurrence sub s (nat start) k)"
proof (cases "find_from sub (drop (nat start) s) (nat start)")
  case None
  have "\<not> occurs_at sub s k" if "nat start \<le> k" for k
  proof -
    from that have "drop k s = drop (k - nat start) (drop (nat start) s)" by simp
    then show ?thesis
      unfolding occurs_at_drop using find_from_None [OF None, of "k - nat start"] by simp
  qed
  moreover from None assms have "find s sub start = - 1" by (simp add: find_def)
  ultimately show ?thesis by blast
next
  case (Some k)
  from find_from_Some [OF Some] have f: "nat start \<le> k"
    "startswith (drop (k - nat start) (drop (nat start) s)) sub"
    "\<forall>j<k - nat start. \<not> startswith (drop j (drop (nat start) s)) sub"
    by blast+
  have shift: "drop j s = drop (j - nat start) (drop (nat start) s)" if "nat start \<le> j" for j
    using that by simp
  have "occurs_at sub s k"
    unfolding occurs_at_drop shift [OF f(1)] by (rule f(2))
  moreover have "\<not> occurs_at sub s j" if "j \<in> {nat start..<k}" for j
  proof -
    from that have lt: "j - nat start < k - nat start" and le: "nat start \<le> j" by auto
    from f(3) lt have "\<not> startswith (drop (j - nat start) (drop (nat start) s)) sub" by blast
    then show ?thesis unfolding occurs_at_drop shift [OF le] .
  qed
  ultimately have "first_occurrence sub s (nat start) k"
    using f(1) by (simp add: first_occurrence_def)
  moreover from Some assms have "find s sub start = int k" by (simp add: find_def)
  ultimately show ?thesis by blast
qed

lemma slice_nat:
  "a \<le> length xs \<Longrightarrow> b \<le> length xs \<Longrightarrow> slice xs (int a) (int b) = take (b - a) (drop a xs)"
  by (simp add: slice_def clip_def)

lemma first_occurrence_bound:
  "sub \<noteq> [] \<Longrightarrow> first_occurrence sub s start i \<Longrightarrow> start \<le> i \<and> i \<le> length s"
  using occurs_at_bound [of sub s i] by (simp add: first_occurrence_def)

lemma section_start_idx:
  "\<exists>start. section_start content start \<and> start \<le> length content \<and>
     (if find content (str ''Page | 98'') 0 = - 1
      then (if find content (str ''Ferns'' @ [10] @ str ''Ferns add texture'') 0 = - 1 then 0
            else find content (str ''Ferns'' @ [10] @ str ''Ferns add texture'') 0)
      else find content (str ''Page | 98'') 0) = int start"
proof -
  let ?P = "str ''Page | 98''"
  let ?F = "str ''Ferns'' @ [10] @ str ''Ferns add texture''"
  have ne: "?P \<noteq> []" "?F \<noteq> []" by (simp_all add: str_def)
  from find_cases [of 0 content ?P] consider
    (none) "find content ?P 0 = - 1" "\<forall>k. \<not> occurs_at ?P content k"
    | (some) k where "find content ?P 0 = int k" "first_occurrence ?P content 0 k"
    by auto
  then show ?thesis
  proof cases
    case some
    from some(2) have "\<exists>k. occurs_at ?P content k" by (auto simp: first_occurrence_def)
    with some(2) have "section_start content k" by (simp add: section_start_def)
    moreover from first_occurrence_bound [OF ne(1) some(2)] have "k \<le> length content" by simp
    moreover from some(1) have "find content ?P 0 \<noteq> - 1" by simp
    ultimately show ?thesis using some(1) by auto
  next
    case none
    from find_cases [of 0 content ?F] consider
      (none') "find content ?F 0 = - 1" "\<forall>k. \<not> occurs_at ?F content k"
      | (some') k where "find content ?F 0 = int k" "first_occurrence ?F content 0 k"
      by auto
    then show ?thesis
    proof cases
      case none'
      from none(2) none'(2) have "section_start content 0"
        unfolding section_start_def by auto
      with none(1) none'(1) show ?thesis by auto
    next
      case some'
      from some'(2) have "\<exists>k. occurs_at ?F content k" by (auto simp: first_occurrence_def)
      with some'(2) none(2) have "section_start content k"
        unfolding section_start_def by auto
      moreover from first_occurrence_bound [OF ne(2) some'(2)] have "k \<le> length content" by simp
      moreover from some'(1) have "find content ?F 0 \<noteq> - 1" by simp
      ultimately show ?thesis using some'(1) none(1) by auto
    qed
  qed
qed

lemma section_end_idx:
  assumes "start \<le> length content"
  shows "\<exists>e. section_end content start e \<and> start \<le> e \<and> e \<le> length content \<and>
     (if find content (str ''Glossary'') (int start) = - 1 then int (length content)
      else find content (str ''Glossary'') (int start)) = int e"
proof -
  let ?G = "str ''Glossary''"
  have ne: "?G \<noteq> []" by (simp add: str_def)
  from assms find_cases [of "int start" content ?G] consider
    (none) "find content ?G (int start) = - 1" "\<forall>k\<ge>start. \<not> occurs_at ?G content k"
    | (some) k where "find content ?G (int start) = int k" "first_occurrence ?G content start k"
    by auto
  then show ?thesis
  proof cases
    case none
    from none(2) have "section_end content start (length content)"
      unfolding section_end_def by auto
    with none(1) assms show ?thesis by auto
  next
    case some
    from first_occurrence_bound [OF ne some(2)] have b: "start \<le> k" "k \<le> length content"
      by simp_all
    from some(2) b(1) have "\<exists>k\<ge>start. occurs_at ?G content k"
      by (auto simp: first_occurrence_def)
    with some(2) have "section_end content start k" by (simp add: section_end_def)
    moreover from some(1) have "find content ?G (int start) \<noteq> - 1" by simp
    ultimately show ?thesis using some(1) b by auto
  qed
qed

lemma first_occurrence_unique:
  assumes "first_occurrence sub s start i" and "first_occurrence sub s start j"
  shows "i = j"
proof (rule ccontr)
  assume "i \<noteq> j"
  then consider "i < j" | "j < i" by arith
  then show False
  proof cases
    case 1
    with assms(1) have "i \<in> {start..<j}" "occurs_at sub s i"
      by (simp_all add: first_occurrence_def)
    with assms(2) show False by (auto simp: first_occurrence_def)
  next
    case 2
    with assms(2) have "j \<in> {start..<i}" "occurs_at sub s j"
      by (simp_all add: first_occurrence_def)
    with assms(1) show False by (auto simp: first_occurrence_def)
  qed
qed

lemma example_guide_section:
  "first_occurrence (str ''Page | 98'') example_guide 0 9"
  "first_occurrence (str ''Glossary'') example_guide 9 50"
  "description_section example_guide =
     document [''Page | 98'', ''Adiantum pedatum Northern fern'', '''']"
  by code_simp+

text \<open>
  C5.  For every document, \<^verbatim>\<open>description_section\<close> is the text from the start boundary up
  to the end boundary: the start is the first occurrence of \<^verbatim>\<open>Page | 98\<close>, without one
  the first occurrence of the Ferns header, without one offset 0; the end is the first
  occurrence of \<^verbatim>\<open>Glossary\<close> at or after the start, without one the end of the document.
  The function has no error branch: \<^verbatim>\<open>str.find\<close> and slicing do not raise.
\<close>

theorem description_section_spec:
  "\<exists>start end_idx. section_start content start \<and> section_end content start end_idx \<and>
     start \<le> end_idx \<and> end_idx \<le> length content \<and>
     description_section content = take (end_idx - start) (drop start content)"
proof -
  from section_start_idx [of content] obtain start
    where s: "section_start content start" "start \<le> length content"
      "(if find content (str ''Page | 98'') 0 = - 1
        then (if find content (str ''Ferns'' @ [10] @ str ''Ferns add texture'') 0 = - 1 then 0
              else find content (str ''Ferns'' @ [10] @ str ''Ferns add texture'') 0)
        else find content (str ''Page | 98'') 0) = int start"
    by blast
  from section_end_idx [OF s(2)] obtain e
    where e: "section_end content start e" "start \<le> e" "e \<le> length content"
      "(if find content (str ''Glossary'') (int start) = - 1 then int (length content)
        else find content (str ''Glossary'') (int start)) = int e"
    by blast
  have "description_section content = slice content (int start) (int e)"
    unfolding description_section_def Let_def s(3) e(4) by (rule refl)
  also have "\<dots> = take (e - start) (drop start content)"
    using s(2) e(3) by (rule slice_nat)
  finally show ?thesis using s(1) e(1,2,3) by blast
qed

theorem description_section_spec_witness:
  "section_start example_guide 9 \<and> section_end example_guide 9 50 \<and>
   description_section example_guide = take (50 - 9) (drop 9 example_guide) \<and>
   description_section example_guide =
     document [''Page | 98'', ''Adiantum pedatum Northern fern'', '''']"
proof -
  from description_section_spec [of example_guide] obtain start e
    where s: "section_start example_guide start" "section_end example_guide start e"
      "description_section example_guide = take (e - start) (drop start example_guide)"
    by blast
  from example_guide_section(1) have "\<exists>k. occurs_at (str ''Page | 98'') example_guide k"
    by (auto simp: first_occurrence_def)
  with s(1) have "first_occurrence (str ''Page | 98'') example_guide 0 start"
    by (simp add: section_start_def)
  from first_occurrence_unique [OF this example_guide_section(1)] have start: "start = 9" .
  from example_guide_section(2) have "(9::nat) \<le> 50 \<and> occurs_at (str ''Glossary'') example_guide 50"
    by (simp add: first_occurrence_def)
  then have "\<exists>k\<ge>9. occurs_at (str ''Glossary'') example_guide k"
    by (rule exI)
  with s(2) start have "first_occurrence (str ''Glossary'') example_guide 9 e"
    by (simp add: section_end_def)
  from first_occurrence_unique [OF this example_guide_section(2)] have "e = 50" .
  with s start example_guide_section(3) show ?thesis by simp
qed

section \<open>The lookahead window\<close>











section \<open>The genus tables\<close>

lemma genera_distinct:
  "distinct (fern_genera @ graminoid_genera @ shrub_genera @ tree_genera @ vine_genera)"
  by (simp add: fern_genera_def graminoid_genera_def shrub_genera_def tree_genera_def
      vine_genera_def str_def)

text \<open>
  C8.  The five genus lists of \<^verbatim>\<open>categorize_plant\<close> are pairwise disjoint: no genus
  is in two of them.
\<close>

theorem genus_sets_disjoint:
  "set fern_genera \<inter> set graminoid_genera = {} \<and>
   set fern_genera \<inter> set shrub_genera = {} \<and>
   set fern_genera \<inter> set tree_genera = {} \<and>
   set fern_genera \<inter> set vine_genera = {} \<and>
   set graminoid_genera \<inter> set shrub_genera = {} \<and>
   set graminoid_genera \<inter> set tree_genera = {} \<and>
   set graminoid_genera \<inter> set vine_genera = {} \<and>
   set shrub_genera \<inter> set tree_genera = {} \<and>
   set shrub_genera \<inter> set vine_genera = {} \<and>
   set tree_genera \<inter> set vine_genera = {}"
  using genera_distinct
  by (simp only: distinct_append set_append Int_Un_distrib Int_Un_distrib2 Un_empty)

end
